theory Spec2Isabelle
  imports Complex_Main "HOL-Library.Sublist"
begin

section \<open>Arrays\<close>

text \<open>
  The kinematics code works on numpy arrays of float64. Here a one-dimensional array is
  a list of reals and a two-dimensional array is the list of its rows; arithmetic is
  exact real arithmetic, so rounding and overflow are outside this development. Of the IEEE
  special values, the infinity or NaN of a quotient whose divisor is zero appears as an
  outcome of its own where the solver is transcribed with the outcomes of its quotients.
\<close>

type_synonym vec = "real list"
type_synonym mat = "real list list"

datatype py_error = IndexError | ValueError | LinAlgError

fun dot :: "vec \<Rightarrow> vec \<Rightarrow> real" where
  "dot (x # xs) (y # ys) = x * y + dot xs ys"
| "dot _ _ = 0"

definition ncols :: "mat \<Rightarrow> nat" where
  "ncols A = (case A of [] \<Rightarrow> 0 | r # _ \<Rightarrow> length r)"

definition col :: "mat \<Rightarrow> nat \<Rightarrow> vec" where
  "col A j = map (\<lambda>r. r ! j) A"

text \<open>\<^verbatim>\<open>A.T\<close>\<close>

definition mT :: "mat \<Rightarrow> mat" where
  "mT A = map (col A) [0..<ncols A]"

text \<open>\<^verbatim>\<open>A @ B\<close> for two-dimensional \<open>A\<close> and \<open>B\<close>\<close>

definition mm :: "mat \<Rightarrow> mat \<Rightarrow> mat" where
  "mm A B = map (\<lambda>r. map (\<lambda>j. dot r (col B j)) [0..<ncols B]) A"

text \<open>\<^verbatim>\<open>A @ x\<close> for two-dimensional \<open>A\<close> and one-dimensional \<open>x\<close>\<close>

definition mv :: "mat \<Rightarrow> vec \<Rightarrow> vec" where
  "mv A x = map (\<lambda>r. dot r x) A"

text \<open>\<^verbatim>\<open>np.eye(n)\<close>\<close>

definition eye :: "nat \<Rightarrow> mat" where
  "eye n = map (\<lambda>i. map (\<lambda>j. if i = j then 1 else 0) [0..<n]) [0..<n]"

definition vadd :: "vec \<Rightarrow> vec \<Rightarrow> vec" where
  "vadd x y = map2 (+) x y"

definition vsub :: "vec \<Rightarrow> vec \<Rightarrow> vec" where
  "vsub x y = map2 (-) x y"

definition smul :: "real \<Rightarrow> vec \<Rightarrow> vec" where
  "smul c x = map ((*) c) x"

definition madd :: "mat \<Rightarrow> mat \<Rightarrow> mat" where
  "madd A B = map2 vadd A B"

definition msub :: "mat \<Rightarrow> mat \<Rightarrow> mat" where
  "msub A B = map2 vsub A B"

definition msmul :: "real \<Rightarrow> mat \<Rightarrow> mat" where
  "msmul c A = map (smul c) A"

text \<open>\<^verbatim>\<open>np.linalg.norm(x)\<close> of a one-dimensional array\<close>

definition norm2 :: "vec \<Rightarrow> real" where
  "norm2 x = sqrt (dot x x)"

text \<open>\<^verbatim>\<open>np.linalg.norm(A, 'fro')\<close>\<close>

definition norm_fro :: "mat \<Rightarrow> real" where
  "norm_fro A = sqrt (sum_list (map (\<lambda>r. dot r r) A))"

text \<open>\<^verbatim>\<open>T[:3, 3]\<close> and \<open>T[:3, :3]\<close>\<close>

definition translation_part :: "mat \<Rightarrow> vec" where
  "translation_part T = map (\<lambda>r. r ! 3) (take 3 T)"

definition rotation_part :: "mat \<Rightarrow> mat" where
  "rotation_part T = map (take 3) (take 3 T)"

text \<open>\<^verbatim>\<open>np.trace\<close> of a 3 by 3 array\<close>

definition trace3 :: "mat \<Rightarrow> real" where
  "trace3 R = R ! 0 ! 0 + R ! 1 ! 1 + R ! 2 ! 2"

text \<open>\<^verbatim>\<open>np.clip(x, lo, hi)\<close>\<close>

definition clip :: "real \<Rightarrow> real \<Rightarrow> real \<Rightarrow> real" where
  "clip x lo hi = min (max x lo) hi"

definition is_mat :: "nat \<Rightarrow> nat \<Rightarrow> mat \<Rightarrow> bool" where
  "is_mat m n A = (length A = m \<and> list_all (\<lambda>r. length r = n) A)"

text \<open>
  Two predicates on arrays that the statements about rotations use: a 3 by 3 array whose
  product with its transpose is the identity on both sides, and a 4 by 4 array whose last
  row is that of a homogeneous transform.
\<close>

definition orthogonal3 :: "mat \<Rightarrow> bool" where
  "orthogonal3 R = (is_mat 3 3 R \<and> mm R (mT R) = eye 3 \<and> mm (mT R) R = eye 3)"

definition homogeneous :: "mat \<Rightarrow> bool" where
  "homogeneous T = (is_mat 4 4 T \<and> T ! 3 = [0, 0, 0, 1])"

section \<open>Forward kinematics: \<^verbatim>\<open>urdf_forward_kinematics.py\<close>\<close>

text \<open>The object \<^verbatim>\<open>UR3_URDF_ForwardKinematics\<close> with the fields its constructor sets.\<close>

record ur3_fk =
  d1 :: real
  a2 :: real
  a3 :: real
  d4 :: real
  d5 :: real
  d6 :: real
  shoulder_offset :: real
  elbow_offset :: real
  upper_arm_length :: real
  forearm_length :: real
  wrist_1_length :: real
  wrist_2_length :: real
  wrist_3_length :: real
  joint_limits :: "(real \<times> real) list"

definition UR3_URDF_ForwardKinematics :: ur3_fk where
  "UR3_URDF_ForwardKinematics =
     (let d1' = 0.1519; a2' = - 0.24365; a3' = - 0.21325; d4' = 0.11235; d5' = 0.08535;
          d6' = 0.0819; shoulder_offset' = 0.1198; elbow_offset' = - 0.0925
      in \<lparr> d1 = d1', a2 = a2', a3 = a3', d4 = d4', d5 = d5', d6 = d6',
           shoulder_offset = shoulder_offset', elbow_offset = elbow_offset',
           upper_arm_length = - a2',
           forearm_length = - a3',
           wrist_1_length = d4' - elbow_offset' - shoulder_offset',
           wrist_2_length = d5',
           wrist_3_length = d6',
           joint_limits = [(- 2 * pi, 2 * pi), (- 2 * pi, 2 * pi), (- 2 * pi, 2 * pi),
                           (- 2 * pi, 2 * pi), (- 2 * pi, 2 * pi), (- 2 * pi, 2 * pi)] \<rparr>)"

definition rotx :: "real \<Rightarrow> mat" where
  "rotx angle = (let c = cos angle; s = sin angle in
     [[1, 0, 0, 0],
      [0, c, - s, 0],
      [0, s, c, 0],
      [0, 0, 0, 1]])"

definition roty :: "real \<Rightarrow> mat" where
  "roty angle = (let c = cos angle; s = sin angle in
     [[c, 0, s, 0],
      [0, 1, 0, 0],
      [- s, 0, c, 0],
      [0, 0, 0, 1]])"

definition rotz :: "real \<Rightarrow> mat" where
  "rotz angle = (let c = cos angle; s = sin angle in
     [[c, - s, 0, 0],
      [s, c, 0, 0],
      [0, 0, 1, 0],
      [0, 0, 0, 1]])"

text \<open>
  \<^verbatim>\<open>_create_transform\<close>: the identity \<^verbatim>\<open>np.eye(4)\<close> whose last column gets
  \<open>xyz\<close> in its first three rows and whose upper left block gets that of
  \<^verbatim>\<open>Rz @ Ry @ Rx\<close>. The arguments \<open>xyz\<close> and \<open>rpy\<close> are three-element lists at
  every call; they are triples here.
\<close>

definition create_transform :: "real \<times> real \<times> real \<Rightarrow> real \<times> real \<times> real \<Rightarrow> mat" where
  "create_transform xyz rpy =
     (case xyz of (x, y, z) \<Rightarrow> case rpy of (r, p, yw) \<Rightarrow>
        let Rx = rotx r; Ry = roty p; Rz = rotz yw;
            R = rotation_part (mm (mm Rz Ry) Rx)
        in [R ! 0 @ [x],
            R ! 1 @ [y],
            R ! 2 @ [z],
            eye 4 ! 3])"

definition joint_transform :: "real \<times> real \<times> real \<Rightarrow> real \<times> real \<times> real \<Rightarrow> real \<Rightarrow> string \<Rightarrow> mat" where
  "joint_transform xyz rpy q axis =
     (let T_origin = create_transform xyz rpy;
          T_joint = (if axis = ''z'' then rotz q
                     else if axis = ''y'' then roty q
                     else rotx q)
      in mm T_origin T_joint)"

text \<open>The dictionary that \<^verbatim>\<open>forward_kinematics\<close> returns has these seven keys.\<close>

record link_poses =
  base :: mat
  shoulder :: mat
  upper_arm :: mat
  forearm :: mat
  wrist_1 :: mat
  wrist_2 :: mat
  wrist_3 :: mat

text \<open>
  \<^verbatim>\<open>forward_kinematics\<close> reads \<^verbatim>\<open>q[0]\<close> to \<^verbatim>\<open>q[5]\<close>: a shorter sequence raises
  IndexError, further elements are ignored.
\<close>

definition forward_kinematics :: "ur3_fk \<Rightarrow> real list \<Rightarrow> py_error + link_poses" where
  "forward_kinematics self q =
     (if length q < 6 then Inl IndexError
      else
        let T_base = eye 4;
            T1 = joint_transform (0, 0, d1 self) (0, 0, 0) (q ! 0) ''z'';
            T_shoulder = mm T_base T1;
            T2 = joint_transform (0, shoulder_offset self, 0) (0, pi / 2, 0) (q ! 1) ''y'';
            T_upper_arm = mm T_shoulder T2;
            T3 = joint_transform (0, elbow_offset self, upper_arm_length self) (0, 0, 0) (q ! 2) ''y'';
            T_forearm = mm T_upper_arm T3;
            T4 = joint_transform (0, 0, forearm_length self) (0, pi / 2, 0) (q ! 3) ''y'';
            T_wrist_1 = mm T_forearm T4;
            T5 = joint_transform (0, wrist_1_length self, 0) (0, 0, 0) (q ! 4) ''z'';
            T_wrist_2 = mm T_wrist_1 T5;
            T6 = joint_transform (0, 0, wrist_2_length self) (0, 0, 0) (q ! 5) ''y'';
            T_wrist_3 = mm T_wrist_2 T6
        in Inr \<lparr> base = T_base,
                 shoulder = T_shoulder,
                 upper_arm = T_upper_arm,
                 forearm = T_forearm,
                 wrist_1 = T_wrist_1,
                 wrist_2 = T_wrist_2,
                 wrist_3 = T_wrist_3 \<rparr>)"

definition get_joint_positions :: "ur3_fk \<Rightarrow> real list \<Rightarrow> py_error + vec list" where
  "get_joint_positions self q =
     (case forward_kinematics self q of
        Inl e \<Rightarrow> Inl e
      | Inr transforms \<Rightarrow>
          Inr [translation_part (base transforms),
               translation_part (shoulder transforms),
               translation_part (upper_arm transforms),
               translation_part (forearm transforms),
               translation_part (wrist_1 transforms),
               translation_part (wrist_2 transforms),
               translation_part (wrist_3 transforms)])"

text \<open>
  \<^verbatim>\<open>check_joint_limits\<close>: the loop over \<^verbatim>\<open>enumerate(joint_angles)\<close>; the
  read \<^verbatim>\<open>self.joint_limits[i]\<close> raises IndexError past the end of the limits.
\<close>

fun check_joint_limits_from :: "(real \<times> real) list \<Rightarrow> nat \<Rightarrow> real list \<Rightarrow> py_error + bool" where
  "check_joint_limits_from limits i [] = Inr True"
| "check_joint_limits_from limits i (angle # rest) =
     (if length limits \<le> i then Inl IndexError
      else case limits ! i of (lo, hi) \<Rightarrow>
        if angle < lo \<or> angle > hi then Inr False
        else check_joint_limits_from limits (i + 1) rest)"

definition check_joint_limits :: "ur3_fk \<Rightarrow> real list \<Rightarrow> py_error + bool" where
  "check_joint_limits self joint_angles = check_joint_limits_from (joint_limits self) 0 joint_angles"

text \<open>
  \<^verbatim>\<open>normalize_joint_angles\<close>: for each element, the loop
  \<^verbatim>\<open>while normalized[i] > np.pi: normalized[i] -= 2 * np.pi\<close> and then the loop
  \<^verbatim>\<open>while normalized[i] < -np.pi: normalized[i] += 2 * np.pi\<close>.
  Over the reals each shift changes the angle and both loops end, which the termination
  proofs show. In float64 a shift by \<open>2\<pi>\<close> leaves an angle of magnitude above \<open>2\<^sup>5\<^sup>6\<close>
  as it is (\<^verbatim>\<open>1e17 - 2 * np.pi == 1e17\<close>), and the loop does not end there, nor at an
  infinity. The two functions stand for the loops on angles below that magnitude only, and
  the statement about the method on its own asks for such angles.
\<close>

function wrap_down :: "real \<Rightarrow> real" where
  "wrap_down x = (if x > pi then wrap_down (x - 2 * pi) else x)"
  by pat_completeness auto
termination
proof (relation "measure (\<lambda>x. nat \<lceil>x / (2 * pi)\<rceil>)")
  show "wf (measure (\<lambda>x. nat \<lceil>x / (2 * pi)\<rceil>))" by simp
next
  fix x :: real
  assume h: "pi < x"
  have e: "(x - 2 * pi) / (2 * pi) = x / (2 * pi) - 1"
    by (simp add: diff_divide_distrib)
  have "0 < x" using h pi_gt_zero by linarith
  then have "0 < x / (2 * pi)" by simp
  then have "0 < \<lceil>x / (2 * pi)\<rceil>" by simp
  then show "(x - 2 * pi, x) \<in> measure (\<lambda>x. nat \<lceil>x / (2 * pi)\<rceil>)"
    by (simp add: e)
qed

function wrap_up :: "real \<Rightarrow> real" where
  "wrap_up x = (if x < - pi then wrap_up (x + 2 * pi) else x)"
  by pat_completeness auto
termination
proof (relation "measure (\<lambda>x. nat \<lceil>- x / (2 * pi)\<rceil>)")
  show "wf (measure (\<lambda>x. nat \<lceil>- x / (2 * pi)\<rceil>))" by simp
next
  fix x :: real
  assume h: "x < - pi"
  have e: "- (x + 2 * pi) / (2 * pi) = - x / (2 * pi) - 1"
    by (simp add: diff_divide_distrib add_divide_distrib)
  have "0 < - x" using h pi_gt_zero by linarith
  then have "0 < - x / (2 * pi)" by (simp add: divide_neg_pos)
  then have "0 < \<lceil>- x / (2 * pi)\<rceil>" by (simp only: ceiling_less_iff less_ceiling_iff of_int_0)
  moreover have "\<lceil>- (x + 2 * pi) / (2 * pi)\<rceil> = \<lceil>- x / (2 * pi)\<rceil> - 1"
    by (simp only: e ceiling_diff_one)
  ultimately have "nat \<lceil>- (x + 2 * pi) / (2 * pi)\<rceil> < nat \<lceil>- x / (2 * pi)\<rceil>"
    by linarith
  then show "(x + 2 * pi, x) \<in> measure (\<lambda>x. nat \<lceil>- x / (2 * pi)\<rceil>)"
    by (simp only: in_measure)
qed

definition normalize_joint_angles :: "ur3_fk \<Rightarrow> real list \<Rightarrow> real list" where
  "normalize_joint_angles self joint_angles = map (\<lambda>x. wrap_up (wrap_down x)) joint_angles"

definition get_end_effector_transform :: "ur3_fk \<Rightarrow> real list \<Rightarrow> py_error + mat" where
  "get_end_effector_transform self joint_angles =
     (case forward_kinematics self joint_angles of
        Inl e \<Rightarrow> Inl e
      | Inr transforms \<Rightarrow> Inr (wrist_3 transforms))"

section \<open>The linear solver\<close>

text \<open>
  \<^verbatim>\<open>np.linalg.solve(a, b)\<close> is numpy's, not this repository's. It refuses a
  matrix that is not square with LinAlgError and a right-hand side of another length
  with ValueError, and otherwise runs LAPACK's \<^verbatim>\<open>gesv\<close>: Gaussian elimination with
  partial pivoting, where a pivot that is exactly zero raises LinAlgError (singular
  matrix). A row of the system is the pair of its coefficients and its right-hand side.
  Elimination takes the row whose leading coefficient is largest in absolute value (the
  first one among equals) as pivot row, subtracts its multiples from the other rows, solves
  the remaining system for the remaining unknowns and substitutes back.
\<close>

fun pivot_index :: "(vec \<times> real) list \<Rightarrow> nat" where
  "pivot_index [] = 0"
| "pivot_index [r] = 0"
| "pivot_index (r # rs) =
     (let k = pivot_index rs
      in if \<bar>hd (fst r)\<bar> \<ge> \<bar>hd (fst (rs ! k))\<bar> then 0 else Suc k)"

definition eliminate :: "vec \<times> real \<Rightarrow> vec \<times> real \<Rightarrow> vec \<times> real" where
  "eliminate p r =
     (let m = hd (fst r) / hd (fst p)
      in (vsub (tl (fst r)) (smul m (tl (fst p))), snd r - m * snd p))"

fun gauss :: "nat \<Rightarrow> (vec \<times> real) list \<Rightarrow> py_error + vec" where
  "gauss 0 rows = Inr []"
| "gauss (Suc n) rows =
     (let k = pivot_index rows;
          p = rows ! k;
          others = take k rows @ drop (Suc k) rows
      in if hd (fst p) = 0 then Inl LinAlgError
         else case gauss n (map (eliminate p) others) of
                Inl e \<Rightarrow> Inl e
              | Inr xs \<Rightarrow> Inr ((snd p - dot (tl (fst p)) xs) / hd (fst p) # xs))"

definition linalg_solve :: "mat \<Rightarrow> vec \<Rightarrow> py_error + vec" where
  "linalg_solve A b =
     (if \<not> is_mat (length A) (length A) A then Inl LinAlgError
      else if length b \<noteq> length A then Inl ValueError
      else gauss (length A) (zip A b))"

section \<open>Inverse kinematics: \<^verbatim>\<open>inverse_kinematics.py\<close>\<close>

record ur3_ik =
  fk :: ur3_fk
  epsilon :: real
  max_iter :: nat
  tol :: real

definition UR3_InverseKinematics :: ur3_ik where
  "UR3_InverseKinematics =
     \<lparr> fk = UR3_URDF_ForwardKinematics, epsilon = 0.000001, max_iter = 200, tol = 0.000001 \<rparr>"

text \<open>
  \<^verbatim>\<open>_generate_seeds\<close>. The generator \<^verbatim>\<open>np.random.RandomState(42)\<close> is numpy's:
  the parameter \<open>sample\<close> is the stream of values in the unit interval that a generator
  made with this seed produces, the generator's state is the position in the stream, and
  \<^verbatim>\<open>rng.uniform(low, high, size)\<close> consumes that many values \<open>u\<close> and returns
  \<open>low + (high - low) * u\<close> for each.
\<close>

definition uniform :: "(nat \<Rightarrow> real) \<Rightarrow> nat \<Rightarrow> real \<Rightarrow> real \<Rightarrow> nat \<Rightarrow> vec \<times> nat" where
  "uniform sample pos low high n =
     (map (\<lambda>k. low + (high - low) * sample (pos + k)) [0..<n], pos + n)"

fun random_seeds :: "(nat \<Rightarrow> real) \<Rightarrow> nat \<Rightarrow> nat \<Rightarrow> vec list" where
  "random_seeds sample pos 0 = []"
| "random_seeds sample pos (Suc n) =
     (case uniform sample pos (- pi) pi 6 of
        (seed, pos') \<Rightarrow> seed # random_seeds sample pos' n)"

definition configs :: "vec list" where
  "configs =
     [[0, - pi / 2, pi / 2, - pi / 2, - pi / 2, 0],
      [0, 0, 0, 0, 0, 0],
      [0, - pi / 2, - pi / 2, 0, pi / 2, 0],
      [pi, - pi / 2, pi / 2, - pi / 2, pi / 2, 0],
      [0, - pi / 4, pi / 4, - pi / 2, - pi / 2, 0],
      [pi, - pi / 2, - pi / 2, pi / 2, pi / 2, 0],
      [0, - pi, pi / 2, 0, - pi / 2, pi],
      [- pi, - pi / 2, pi / 2, pi / 2, - pi / 2, 0]]"

definition generate_seeds :: "(nat \<Rightarrow> real) \<Rightarrow> vec list" where
  "generate_seeds sample = configs @ random_seeds sample 0 24"

text \<open>
  The axis-angle extraction that \<^verbatim>\<open>_solve_single\<close> and \<^verbatim>\<open>_numerical_jacobian\<close>
  both write out: the angle \<^verbatim>\<open>np.arccos(np.clip((np.trace(R) - 1) / 2, -1, 1))\<close> and the
  vector \<^verbatim>\<open>[R[2,1] - R[1,2], R[0,2] - R[2,0], R[1,0] - R[0,1]]\<close>.
\<close>

definition rotation_angle :: "mat \<Rightarrow> real" where
  "rotation_angle R = arccos (clip ((trace3 R - 1) / 2) (- 1) 1)"

definition skew_vector :: "mat \<Rightarrow> vec" where
  "skew_vector R = [R ! 2 ! 1 - R ! 1 ! 2, R ! 0 ! 2 - R ! 2 ! 0, R ! 1 ! 0 - R ! 0 ! 1]"

text \<open>
  \<^verbatim>\<open>_verify\<close>; its \<^verbatim>\<open>except\<close> clause turns every exception of the forward
  kinematics into the answer False.
\<close>

definition verify :: "ur3_ik \<Rightarrow> vec \<Rightarrow> mat \<Rightarrow> real \<Rightarrow> real \<Rightarrow> bool" where
  "verify self q T_desired pos_tol rot_tol =
     (case get_end_effector_transform (fk self) q of
        Inl e \<Rightarrow> False
      | Inr T_actual \<Rightarrow>
          let pos_err = norm2 (vsub (translation_part T_actual) (translation_part T_desired));
              R_err = norm_fro (msub (rotation_part T_actual) (rotation_part T_desired))
          in pos_err < pos_tol \<and> R_err < rot_tol)"

text \<open>
  \<^verbatim>\<open>_numerical_jacobian\<close>: the body of the loop computes column \<open>i\<close>, its first
  three entries the linear and its last three the angular part.
\<close>

definition jacobian_column :: "ur3_ik \<Rightarrow> vec \<Rightarrow> real \<Rightarrow> vec \<Rightarrow> mat \<Rightarrow> nat \<Rightarrow> py_error + vec" where
  "jacobian_column self q delta p0 R0 i =
     (let q_plus = q[i := q ! i + delta]
      in case get_end_effector_transform (fk self) q_plus of
           Inl e \<Rightarrow> Inl e
         | Inr T_plus \<Rightarrow>
             let p_plus = translation_part T_plus;
                 R_plus = rotation_part T_plus;
                 linear = map (\<lambda>x. x / delta) (vsub p_plus p0);
                 dR = mm R_plus (mT R0);
                 angle = rotation_angle dR;
                 angular = (if angle < 0.0000000001 then [0, 0, 0]
                            else smul (angle / (2 * sin angle * delta)) (skew_vector dR))
             in Inr (linear @ angular))"

fun jacobian_columns :: "ur3_ik \<Rightarrow> vec \<Rightarrow> real \<Rightarrow> vec \<Rightarrow> mat \<Rightarrow> nat list \<Rightarrow> py_error + vec list" where
  "jacobian_columns self q delta p0 R0 [] = Inr []"
| "jacobian_columns self q delta p0 R0 (i # is) =
     (case jacobian_column self q delta p0 R0 i of
        Inl e \<Rightarrow> Inl e
      | Inr c \<Rightarrow>
          (case jacobian_columns self q delta p0 R0 is of
             Inl e \<Rightarrow> Inl e
           | Inr cs \<Rightarrow> Inr (c # cs)))"

definition numerical_jacobian :: "ur3_ik \<Rightarrow> vec \<Rightarrow> real \<Rightarrow> py_error + mat" where
  "numerical_jacobian self q delta =
     (case get_end_effector_transform (fk self) q of
        Inl e \<Rightarrow> Inl e
      | Inr T0 \<Rightarrow>
          let p0 = translation_part T0;
              R0 = rotation_part T0
          in case jacobian_columns self q delta p0 R0 [0..<6] of
               Inl e \<Rightarrow> Inl e
             | Inr cs \<Rightarrow> Inr (mT cs))"

text \<open>
  \<^verbatim>\<open>_solve_single\<close>. The orientation error of one iteration, then the loop with the
  number of iterations that remain, then the method. The sum \<^verbatim>\<open>q + dq\<close> of arrays of
  different lengths raises ValueError (\<open>q\<close> has six elements or more where it is reached).
  The target \<open>T_desired\<close> is a 4 by 4 array; what numpy does with an array of another
  shape is not modelled, and the statements about the solver ask for this shape.
  The quotient \<^verbatim>\<open>angle / (2 * np.sin(angle))\<close> is a quotient of reals: its divisor is
  zero in exact arithmetic at the angle \<open>\<pi>\<close>, where the quotient is 0 in HOL (the sine
  of the float nearest to \<open>\<pi>\<close> is not zero); no statement below rests on that value.
\<close>

definition orientation_error :: "ur3_ik \<Rightarrow> mat \<Rightarrow> mat \<Rightarrow> vec" where
  "orientation_error self R_desired R_current =
     (let R_err = mm R_desired (mT R_current);
          angle = rotation_angle R_err
      in if angle < epsilon self then [0, 0, 0]
         else smul (angle / (2 * sin angle)) (skew_vector R_err))"

fun solve_iterations :: "ur3_ik \<Rightarrow> mat \<Rightarrow> nat \<Rightarrow> vec \<Rightarrow> py_error + vec option" where
  "solve_iterations self T_desired 0 q = Inr None"
| "solve_iterations self T_desired (Suc n) q =
     (let p_desired = translation_part T_desired;
          R_desired = rotation_part T_desired;
          damping = 0.01
      in case get_end_effector_transform (fk self) q of
           Inl e \<Rightarrow> Inl e
         | Inr T_current \<Rightarrow>
             let p_current = translation_part T_current;
                 R_current = rotation_part T_current;
                 dp = vsub p_desired p_current;
                 dw = orientation_error self R_desired R_current;
                 error = dp @ dw;
                 pos_err = norm2 dp;
                 rot_err = norm2 dw
             in if pos_err < tol self \<and> rot_err < tol self * 5 then
                  (if verify self q T_desired 0.0001 0.005 then Inr (Some q) else Inr None)
                else
                  case numerical_jacobian self q 0.000001 of
                    Inl e \<Rightarrow> Inl e
                  | Inr J \<Rightarrow>
                      let JJT = madd (mm J (mT J)) (msmul (damping ^ 2) (eye 6))
                      in case linalg_solve JJT error of
                           Inl e \<Rightarrow> Inl e
                         | Inr y \<Rightarrow>
                             let dq = mv (mT J) y
                             in if length q \<noteq> length dq then Inl ValueError
                                else solve_iterations self T_desired n (vadd q dq))"

definition solve_single :: "ur3_ik \<Rightarrow> mat \<Rightarrow> vec \<Rightarrow> py_error + vec option" where
  "solve_single self T_desired q_init = solve_iterations self T_desired (max_iter self) q_init"

text \<open>
  \<^verbatim>\<open>solve_ik\<close>: the loop over the seeds with the list \<open>solutions\<close> built so far; the
  inner loop with its \<^verbatim>\<open>break\<close> asks whether some existing solution is within 0.05 of
  the result in every joint.
\<close>

definition is_duplicate :: "ur3_ik \<Rightarrow> vec \<Rightarrow> vec \<Rightarrow> bool" where
  "is_duplicate self result existing =
     (let diff = map abs (vsub result (normalize_joint_angles (fk self) existing))
      in list_all (\<lambda>d. d < 0.05) diff)"

fun solve_seeds :: "ur3_ik \<Rightarrow> mat \<Rightarrow> vec list \<Rightarrow> vec list \<Rightarrow> py_error + vec list" where
  "solve_seeds self T_desired [] solutions = Inr solutions"
| "solve_seeds self T_desired (seed # seeds) solutions =
     (case solve_single self T_desired seed of
        Inl e \<Rightarrow> Inl e
      | Inr None \<Rightarrow> solve_seeds self T_desired seeds solutions
      | Inr (Some result0) \<Rightarrow>
          let result = normalize_joint_angles (fk self) result0;
              is_new = \<not> list_ex (is_duplicate self result) solutions
          in solve_seeds self T_desired seeds (if is_new then solutions @ [result] else solutions))"

definition solve_ik :: "ur3_ik \<Rightarrow> (nat \<Rightarrow> real) \<Rightarrow> mat \<Rightarrow> py_error + vec list" where
  "solve_ik self sample T_desired = solve_seeds self T_desired (generate_seeds sample) []"

text \<open>
  The generator of \<^verbatim>\<open>_generate_seeds\<close> is an object: \<^verbatim>\<open>np.random.RandomState(42)\<close>
  allocates one, and every \<^verbatim>\<open>rng.uniform\<close> reads the next values of its stream and moves
  its position. The store holds the generator objects that exist, each as its seed and the
  number of values drawn from it so far; \<open>stream seed k\<close> is the \<open>k\<close>-th value in the unit
  interval that a generator seeded with \<open>seed\<close> produces. With the store threaded through,
  \<^verbatim>\<open>_generate_seeds\<close> and \<^verbatim>\<open>solve_ik\<close> are the functions below; the loop
  \<^verbatim>\<open>for _ in range(24)\<close> is \<open>draw_seeds\<close>.
\<close>

record store =
  generators :: "(nat \<times> nat) list"

definition RandomState :: "nat \<Rightarrow> store \<Rightarrow> nat \<times> store" where
  "RandomState seed st = (length (generators st), st\<lparr>generators := generators st @ [(seed, 0)]\<rparr>)"

definition rng_uniform :: "(nat \<Rightarrow> nat \<Rightarrow> real) \<Rightarrow> nat \<Rightarrow> real \<Rightarrow> real \<Rightarrow> nat \<Rightarrow> store \<Rightarrow> vec \<times> store" where
  "rng_uniform stream rng low high n st =
     (case generators st ! rng of
        (seed, pos) \<Rightarrow>
          (map (\<lambda>k. low + (high - low) * stream seed (pos + k)) [0..<n],
           st\<lparr>generators := (generators st)[rng := (seed, pos + n)]\<rparr>))"

fun draw_seeds :: "(nat \<Rightarrow> nat \<Rightarrow> real) \<Rightarrow> nat \<Rightarrow> nat \<Rightarrow> store \<Rightarrow> vec list \<times> store" where
  "draw_seeds stream rng 0 st = ([], st)"
| "draw_seeds stream rng (Suc n) st =
     (case rng_uniform stream rng (- pi) pi 6 st of
        (seed, st') \<Rightarrow>
          (case draw_seeds stream rng n st' of
             (seeds, st'') \<Rightarrow> (seed # seeds, st'')))"

definition generate_seeds_in :: "(nat \<Rightarrow> nat \<Rightarrow> real) \<Rightarrow> store \<Rightarrow> vec list \<times> store" where
  "generate_seeds_in stream st =
     (case RandomState 42 st of
        (rng, st1) \<Rightarrow>
          (case draw_seeds stream rng 24 st1 of
             (seeds, st2) \<Rightarrow> (configs @ seeds, st2)))"

definition solve_ik_in :: "ur3_ik \<Rightarrow> (nat \<Rightarrow> nat \<Rightarrow> real) \<Rightarrow> mat \<Rightarrow> store \<Rightarrow> (py_error + vec list) \<times> store" where
  "solve_ik_in self stream T_desired st =
     (case generate_seeds_in stream st of
        (seeds, st') \<Rightarrow> (solve_seeds self T_desired seeds [], st'))"

text \<open>
  Division by zero. Every quotient of \<^verbatim>\<open>inverse_kinematics.py\<close> is a quotient of numpy
  floats or arrays: where the divisor is zero it raises nothing, its value is an infinity or a
  NaN. The reals have no such values and the quotient of HOL is total, so the definitions
  above do not tell whether a divisor was zero. The definitions below are the orientation
  error, \<^verbatim>\<open>_numerical_jacobian\<close> and \<^verbatim>\<open>_solve_single\<close> once more, statement by
  statement, with the outcome of the computation explicit: an exception is raised, or a
  quotient with divisor zero is evaluated (\<open>NonFinite\<close>; what the code computes from an
  infinity or a NaN afterwards is not followed), or a value is returned. The function
  \<open>true_divide\<close> is the quotient of two floats and \<open>divide_each\<close> that of an array by a
  float. The divisor \<^verbatim>\<open>2 * np.sin(angle)\<close> is zero in exact arithmetic at the angles
  \<open>0\<close> and \<open>\<pi>\<close>; the sine of the float nearest to \<open>\<pi>\<close> is not zero, so the outcome
  \<open>NonFinite\<close> at the angle \<open>\<pi>\<close> belongs to exact arithmetic only. The other
  operations of the solver have no such outcome: the argument of \<^verbatim>\<open>np.arccos\<close> is
  clipped, the norms are square roots of sums of squares, and the quotients of the linear
  solver are by pivots that are not zero.
\<close>

datatype 'a outcome = Raised py_error | NonFinite | Returned 'a

fun and_then :: "'a outcome \<Rightarrow> ('a \<Rightarrow> 'b outcome) \<Rightarrow> 'b outcome" where
  "and_then (Returned x) f = f x"
| "and_then NonFinite f = NonFinite"
| "and_then (Raised e) f = Raised e"

definition of_result :: "py_error + 'a \<Rightarrow> 'a outcome" where
  "of_result r = (case r of Inl e \<Rightarrow> Raised e | Inr x \<Rightarrow> Returned x)"

definition true_divide :: "real \<Rightarrow> real \<Rightarrow> real outcome" where
  "true_divide x y = (if y = 0 then NonFinite else Returned (x / y))"

definition divide_each :: "vec \<Rightarrow> real \<Rightarrow> vec outcome" where
  "divide_each v y = (if y = 0 then NonFinite else Returned (map (\<lambda>x. x / y) v))"

definition orientation_error_finite :: "ur3_ik \<Rightarrow> mat \<Rightarrow> mat \<Rightarrow> vec outcome" where
  "orientation_error_finite self R_desired R_current =
     (let R_err = mm R_desired (mT R_current);
          angle = rotation_angle R_err
      in if angle < epsilon self then Returned [0, 0, 0]
         else and_then (true_divide angle (2 * sin angle))
                (\<lambda>c. Returned (smul c (skew_vector R_err))))"

definition jacobian_column_finite :: "ur3_ik \<Rightarrow> vec \<Rightarrow> real \<Rightarrow> vec \<Rightarrow> mat \<Rightarrow> nat \<Rightarrow> vec outcome" where
  "jacobian_column_finite self q delta p0 R0 i =
     (let q_plus = q[i := q ! i + delta]
      in and_then (of_result (get_end_effector_transform (fk self) q_plus))
           (\<lambda>T_plus.
              let p_plus = translation_part T_plus;
                  R_plus = rotation_part T_plus
              in and_then (divide_each (vsub p_plus p0) delta)
                   (\<lambda>linear.
                      let dR = mm R_plus (mT R0);
                          angle = rotation_angle dR
                      in and_then
                           (if angle < 0.0000000001 then Returned [0, 0, 0]
                            else and_then (true_divide angle (2 * sin angle * delta))
                                   (\<lambda>c. Returned (smul c (skew_vector dR))))
                           (\<lambda>angular. Returned (linear @ angular)))))"

fun jacobian_columns_finite :: "ur3_ik \<Rightarrow> vec \<Rightarrow> real \<Rightarrow> vec \<Rightarrow> mat \<Rightarrow> nat list \<Rightarrow> vec list outcome" where
  "jacobian_columns_finite self q delta p0 R0 [] = Returned []"
| "jacobian_columns_finite self q delta p0 R0 (i # is) =
     and_then (jacobian_column_finite self q delta p0 R0 i)
       (\<lambda>c. and_then (jacobian_columns_finite self q delta p0 R0 is)
          (\<lambda>cs. Returned (c # cs)))"

definition numerical_jacobian_finite :: "ur3_ik \<Rightarrow> vec \<Rightarrow> real \<Rightarrow> mat outcome" where
  "numerical_jacobian_finite self q delta =
     and_then (of_result (get_end_effector_transform (fk self) q))
       (\<lambda>T0.
          let p0 = translation_part T0;
              R0 = rotation_part T0
          in and_then (jacobian_columns_finite self q delta p0 R0 [0..<6])
               (\<lambda>cs. Returned (mT cs)))"

fun solve_iterations_finite :: "ur3_ik \<Rightarrow> mat \<Rightarrow> nat \<Rightarrow> vec \<Rightarrow> vec option outcome" where
  "solve_iterations_finite self T_desired 0 q = Returned None"
| "solve_iterations_finite self T_desired (Suc n) q =
     (let p_desired = translation_part T_desired;
          R_desired = rotation_part T_desired;
          damping = 0.01
      in and_then (of_result (get_end_effector_transform (fk self) q))
           (\<lambda>T_current.
              let p_current = translation_part T_current;
                  R_current = rotation_part T_current;
                  dp = vsub p_desired p_current
              in and_then (orientation_error_finite self R_desired R_current)
                   (\<lambda>dw.
                      let error = dp @ dw;
                          pos_err = norm2 dp;
                          rot_err = norm2 dw
                      in if pos_err < tol self \<and> rot_err < tol self * 5 then
                           (if verify self q T_desired 0.0001 0.005 then Returned (Some q)
                            else Returned None)
                         else
                           and_then (numerical_jacobian_finite self q 0.000001)
                             (\<lambda>J.
                                let JJT = madd (mm J (mT J)) (msmul (damping ^ 2) (eye 6))
                                in and_then (of_result (linalg_solve JJT error))
                                     (\<lambda>y.
                                        let dq = mv (mT J) y
                                        in if length q \<noteq> length dq then Raised ValueError
                                           else solve_iterations_finite self T_desired n (vadd q dq))))))"

definition solve_single_finite :: "ur3_ik \<Rightarrow> mat \<Rightarrow> vec \<Rightarrow> vec option outcome" where
  "solve_single_finite self T_desired q_init =
     solve_iterations_finite self T_desired (max_iter self) q_init"

section \<open>The kinematic chain in the words of the specification\<close>

text \<open>
  The specification describes each joint by a fixed origin (a translation and a
  roll-pitch-yaw orientation) and a principal axis, a joint's local transform as the fixed
  origin followed by a right-handed rotation about the axis, and the pose of a link as the
  pose of the link before it times the joint's local transform. The right-handed rotation
  by \<open>t\<close> about the unit vector \<open>u\<close> is Rodrigues' matrix.
\<close>

datatype axis = X_axis | Y_axis | Z_axis

definition unit_vector :: "axis \<Rightarrow> real \<times> real \<times> real" where
  "unit_vector a = (case a of X_axis \<Rightarrow> (1, 0, 0) | Y_axis \<Rightarrow> (0, 1, 0) | Z_axis \<Rightarrow> (0, 0, 1))"

definition spec_rotation :: "axis \<Rightarrow> real \<Rightarrow> mat" where
  "spec_rotation a t =
     (case unit_vector a of (ux, uy, uz) \<Rightarrow>
        let c = cos t; s = sin t; v = 1 - cos t
        in [[c + ux * ux * v, ux * uy * v - uz * s, ux * uz * v + uy * s, 0],
            [uy * ux * v + uz * s, c + uy * uy * v, uy * uz * v - ux * s, 0],
            [uz * ux * v - uy * s, uz * uy * v + ux * s, c + uz * uz * v, 0],
            [0, 0, 0, 1]])"

definition spec_translation :: "real \<times> real \<times> real \<Rightarrow> mat" where
  "spec_translation xyz = (case xyz of (x, y, z) \<Rightarrow>
     [[1, 0, 0, x], [0, 1, 0, y], [0, 0, 1, z], [0, 0, 0, 1]])"

definition spec_fixed_origin :: "real \<times> real \<times> real \<Rightarrow> real \<times> real \<times> real \<Rightarrow> mat" where
  "spec_fixed_origin xyz rpy = (case rpy of (roll, pitch, yaw) \<Rightarrow>
     mm (spec_translation xyz)
        (mm (mm (spec_rotation Z_axis yaw) (spec_rotation Y_axis pitch)) (spec_rotation X_axis roll)))"

record joint_spec =
  origin_xyz :: "real \<times> real \<times> real"
  origin_rpy :: "real \<times> real \<times> real"
  joint_axis :: axis

definition spec_local_transform :: "joint_spec \<Rightarrow> real \<Rightarrow> mat" where
  "spec_local_transform j t = mm (spec_fixed_origin (origin_xyz j) (origin_rpy j)) (spec_rotation (joint_axis j) t)"

fun spec_cumulative :: "mat \<Rightarrow> (joint_spec \<times> real) list \<Rightarrow> mat list" where
  "spec_cumulative P [] = [P]"
| "spec_cumulative P ((j, t) # js) = P # spec_cumulative (mm P (spec_local_transform j t)) js"

definition spec_chain :: "ur3_fk \<Rightarrow> joint_spec list" where
  "spec_chain self =
     [\<lparr>origin_xyz = (0, 0, d1 self), origin_rpy = (0, 0, 0), joint_axis = Z_axis\<rparr>,
      \<lparr>origin_xyz = (0, shoulder_offset self, 0), origin_rpy = (0, pi / 2, 0), joint_axis = Y_axis\<rparr>,
      \<lparr>origin_xyz = (0, elbow_offset self, upper_arm_length self), origin_rpy = (0, 0, 0), joint_axis = Y_axis\<rparr>,
      \<lparr>origin_xyz = (0, 0, forearm_length self), origin_rpy = (0, pi / 2, 0), joint_axis = Y_axis\<rparr>,
      \<lparr>origin_xyz = (0, wrist_1_length self, 0), origin_rpy = (0, 0, 0), joint_axis = Z_axis\<rparr>,
      \<lparr>origin_xyz = (0, 0, wrist_2_length self), origin_rpy = (0, 0, 0), joint_axis = Y_axis\<rparr>]"

section \<open>The solver loop in the words of the specification\<close>

text \<open>
  The two error vectors of an iterate, the convergence test on them, the damped
  least-squares update of an iterate, and the first iterate within a number of iterations
  that passes the convergence test.
\<close>

definition pose_errors :: "ur3_ik \<Rightarrow> mat \<Rightarrow> vec \<Rightarrow> py_error + vec \<times> vec" where
  "pose_errors self T_desired q =
     (case get_end_effector_transform (fk self) q of
        Inl e \<Rightarrow> Inl e
      | Inr T_current \<Rightarrow>
          Inr (vsub (translation_part T_desired) (translation_part T_current),
               orientation_error self (rotation_part T_desired) (rotation_part T_current)))"

definition converged :: "ur3_ik \<Rightarrow> mat \<Rightarrow> vec \<Rightarrow> bool" where
  "converged self T_desired q =
     (case pose_errors self T_desired q of
        Inl e \<Rightarrow> False
      | Inr (dp, dw) \<Rightarrow> norm2 dp < tol self \<and> norm2 dw < tol self * 5)"

definition dls_step :: "ur3_ik \<Rightarrow> mat \<Rightarrow> vec \<Rightarrow> py_error + vec" where
  "dls_step self T_desired q =
     (case pose_errors self T_desired q of
        Inl e \<Rightarrow> Inl e
      | Inr (dp, dw) \<Rightarrow>
          (case numerical_jacobian self q 0.000001 of
             Inl e \<Rightarrow> Inl e
           | Inr J \<Rightarrow>
               (case linalg_solve (madd (mm J (mT J)) (msmul (0.01 ^ 2) (eye 6))) (dp @ dw) of
                  Inl e \<Rightarrow> Inl e
                | Inr y \<Rightarrow>
                    if length q \<noteq> length (mv (mT J) y) then Inl ValueError
                    else Inr (vadd q (mv (mT J) y)))))"

fun spec_first_converged :: "ur3_ik \<Rightarrow> mat \<Rightarrow> nat \<Rightarrow> vec \<Rightarrow> py_error + vec option" where
  "spec_first_converged self T_desired 0 q = Inr None"
| "spec_first_converged self T_desired (Suc n) q =
     (case pose_errors self T_desired q of
        Inl e \<Rightarrow> Inl e
      | Inr err \<Rightarrow>
          if converged self T_desired q then Inr (Some q)
          else case dls_step self T_desired q of
                 Inl e \<Rightarrow> Inl e
               | Inr q' \<Rightarrow> spec_first_converged self T_desired n q')"

text \<open>
  The iterate that the loop has reached after \<open>k\<close> updates, and the poses at which the
  rotation from the current to the desired orientation is a half turn: the trace of the
  rotation error is \<open>-1\<close> (no more, for a rotation), its angle is \<open>\<pi>\<close>.
\<close>

fun iterate :: "ur3_ik \<Rightarrow> mat \<Rightarrow> nat \<Rightarrow> vec \<Rightarrow> vec option" where
  "iterate self T_desired 0 q = Some q"
| "iterate self T_desired (Suc k) q =
     (case dls_step self T_desired q of
        Inl e \<Rightarrow> None
      | Inr q' \<Rightarrow> iterate self T_desired k q')"

definition half_turn :: "ur3_ik \<Rightarrow> mat \<Rightarrow> vec \<Rightarrow> bool" where
  "half_turn self T_desired q =
     (case get_end_effector_transform (fk self) q of
        Inl e \<Rightarrow> False
      | Inr T_current \<Rightarrow>
          trace3 (mm (rotation_part T_desired) (mT (rotation_part T_current))) \<le> - 1)"

text \<open>
  Deduplication: two solutions are the same when they differ by less than 0.05 in each
  of the six joints; the candidates are the normalised results of the seeds that solved,
  in seed order; a candidate is kept when no solution kept before it is the same.
\<close>

definition within_threshold :: "vec \<Rightarrow> vec \<Rightarrow> bool" where
  "within_threshold a b = (\<forall>k<6. \<bar>a ! k - b ! k\<bar> < 0.05)"

fun spec_candidates :: "ur3_ik \<Rightarrow> mat \<Rightarrow> vec list \<Rightarrow> vec list" where
  "spec_candidates self T [] = []"
| "spec_candidates self T (seed # seeds) =
     (case solve_single self T seed of
        Inr (Some q) \<Rightarrow> normalize_joint_angles (fk self) q # spec_candidates self T seeds
      | _ \<Rightarrow> spec_candidates self T seeds)"

fun spec_first_kept :: "vec list \<Rightarrow> vec list \<Rightarrow> vec list" where
  "spec_first_kept kept [] = kept"
| "spec_first_kept kept (c # cs) =
     spec_first_kept (if \<exists>e \<in> set kept. within_threshold c e then kept else kept @ [c]) cs"

definition good_solutions :: "ur3_ik \<Rightarrow> vec list \<Rightarrow> bool" where
  "good_solutions self sols = (\<forall>s \<in> set sols. length s = 6 \<and> normalize_joint_angles (fk self) s = s)"

section \<open>Vectors and matrices\<close>

lemma is_matD: "is_mat m n A \<Longrightarrow> length A = m" "is_mat m n A \<Longrightarrow> r \<in> set A \<Longrightarrow> length r = n"
  by (auto simp: is_mat_def list_all_iff)

lemma is_mat_nth: "is_mat m n A \<Longrightarrow> i < m \<Longrightarrow> length (A ! i) = n"
  by (auto simp: is_mat_def list_all_length)

lemma is_matI: "length A = m \<Longrightarrow> (\<And>i. i < m \<Longrightarrow> length (A ! i) = n) \<Longrightarrow> is_mat m n A"
  by (auto simp: is_mat_def list_all_length)

lemma ncols_is_mat: "is_mat m n A \<Longrightarrow> 0 < m \<Longrightarrow> ncols A = n"
  by (cases A) (auto simp: is_mat_def ncols_def)

lemma dot_Nil2 [simp]: "dot xs [] = 0"
  by (cases xs) simp_all

lemma dot_sum: "length x = length y \<Longrightarrow> dot x y = (\<Sum>i<length x. x ! i * y ! i)"
proof (induction x y rule: list_induct2)
  case Nil
  show ?case by simp
next
  case (Cons a x b y)
  then show ?case by (simp add: sum.lessThan_Suc_shift del: sum.lessThan_Suc)
qed

lemma dot_commute: "dot x y = dot y x"
  by (induction x y rule: dot.induct) simp_all

lemma dot_zeros [simp]: "dot x (replicate n 0) = 0"
proof (induction x arbitrary: n)
  case Nil
  show ?case by simp
next
  case (Cons a x)
  show ?case by (cases n) (simp_all add: Cons.IH)
qed

lemma dot_vsub_smul:
  "length a = length b \<Longrightarrow> dot (vsub a (smul m b)) y = dot a y - m * dot b y"
proof (induction a b arbitrary: y rule: list_induct2)
  case Nil
  show ?case by (simp add: vsub_def smul_def)
next
  case (Cons u a v b)
  have step: "dot (vsub a (smul m b)) ys = dot a ys - m * dot b ys" for ys
    using Cons.IH by simp
  show ?case
  proof (cases y)
    case Nil
    then show ?thesis by simp
  next
    case (Cons w ys)
    have "dot (vsub (u # a) (smul m (v # b))) (w # ys) = (u - m * v) * w + dot (vsub a (smul m b)) ys"
      by (simp add: vsub_def smul_def)
    also have "\<dots> = (u - m * v) * w + (dot a ys - m * dot b ys)"
      by (simp only: step)
    also have "\<dots> = dot (u # a) (w # ys) - m * dot (v # b) (w # ys)"
      by (simp add: algebra_simps)
    finally show ?thesis by (simp only: Cons)
  qed
qed

lemma length_vsub [simp]: "length (vsub a b) = min (length a) (length b)"
  by (simp add: vsub_def)

lemma length_vadd [simp]: "length (vadd a b) = min (length a) (length b)"
  by (simp add: vadd_def)

lemma length_smul [simp]: "length (smul m a) = length a"
  by (simp add: smul_def)

lemma length_mv [simp]: "length (mv A x) = length A"
  by (simp add: mv_def)

lemma pivot_index_less: "rows \<noteq> [] \<Longrightarrow> pivot_index rows < length rows"
  by (induction rows rule: pivot_index.induct) (simp_all add: Let_def)

lemma pivot_index_max:
  "r \<in> set rows \<Longrightarrow> \<bar>hd (fst r)\<bar> \<le> \<bar>hd (fst (rows ! pivot_index rows))\<bar>"
proof (induction rows arbitrary: r rule: pivot_index.induct)
  case 1
  then show ?case by simp
next
  case (2 r0)
  then show ?case by simp
next
  case (3 r0 r1 rs)
  let ?k = "pivot_index (r1 # rs)"
  have ih: "s \<in> set (r1 # rs) \<Longrightarrow> \<bar>hd (fst s)\<bar> \<le> \<bar>hd (fst ((r1 # rs) ! ?k))\<bar>" for s
    using 3 by blast
  show ?case
  proof (cases "\<bar>hd (fst r0)\<bar> \<ge> \<bar>hd (fst ((r1 # rs) ! ?k))\<bar>")
    case True
    then have p: "pivot_index (r0 # r1 # rs) = 0" by (simp add: Let_def)
    show ?thesis
    proof (cases "r = r0")
      case True
      then show ?thesis by (simp add: p del: pivot_index.simps)
    next
      case False
      then have "r \<in> set (r1 # rs)" using "3.prems" by simp
      from ih [OF this] True show ?thesis by (simp add: p del: pivot_index.simps)
    qed
  next
    case False
    then have p: "pivot_index (r0 # r1 # rs) = Suc ?k" by (simp add: Let_def)
    show ?thesis
    proof (cases "r = r0")
      case True
      then show ?thesis using False by (simp add: p del: pivot_index.simps)
    next
      case r: False
      then have "r \<in> set (r1 # rs)" using "3.prems" by simp
      from ih [OF this] show ?thesis by (simp add: p del: pivot_index.simps)
    qed
  qed
qed

lemma set_split_at:
  "k < length rows \<Longrightarrow> set rows = insert (rows ! k) (set (take k rows @ drop (Suc k) rows))"
proof -
  assume k: "k < length rows"
  have "rows = take k rows @ rows ! k # drop (Suc k) rows"
    using k by (rule id_take_nth_drop)
  then have "set rows = set (take k rows @ rows ! k # drop (Suc k) rows)" by simp
  then show ?thesis by simp
qed

lemma length_split_at:
  "k < length rows \<Longrightarrow> length (take k rows @ drop (Suc k) rows) = length rows - 1"
  by simp

lemma length_eliminate:
  "length (fst p) = Suc n \<Longrightarrow> length (fst r) = Suc n \<Longrightarrow> length (fst (eliminate p r)) = n"
  by (simp add: eliminate_def Let_def)

lemma dot_hd_tl: "length r = Suc n \<Longrightarrow> dot r (x # xs) = hd r * x + dot (tl r) xs"
  by (cases r) simp_all

lemma eliminate_dot:
  assumes "length (fst p) = Suc n" "length (fst r) = Suc n"
  shows "dot (fst (eliminate p r)) xs = dot (tl (fst r)) xs - hd (fst r) / hd (fst p) * dot (tl (fst p)) xs"
proof -
  have "length (tl (fst r)) = length (tl (fst p))" using assms by simp
  then show ?thesis
    by (simp add: eliminate_def Let_def dot_vsub_smul)
qed

lemma gauss_sound:
  "gauss n rows = Inr x \<Longrightarrow> length rows = n \<Longrightarrow> (\<forall>r \<in> set rows. length (fst r) = n) \<Longrightarrow>
   length x = n \<and> (\<forall>r \<in> set rows. dot (fst r) x = snd r)"
proof (induction n arbitrary: rows x)
  case 0
  then show ?case by simp
next
  case (Suc n)
  let ?k = "pivot_index rows"
  let ?p = "rows ! ?k"
  let ?others = "take ?k rows @ drop (Suc ?k) rows"
  have ne: "rows \<noteq> []" using Suc.prems(2) by auto
  have k: "?k < length rows" using ne by (rule pivot_index_less)
  have pin: "?p \<in> set rows" using k by simp
  have lp: "length (fst ?p) = Suc n" using Suc.prems(3) pin by blast
  have piv: "hd (fst ?p) \<noteq> 0"
    using Suc.prems(1) by (auto simp: Let_def split: if_splits)
  obtain xs where rec: "gauss n (map (eliminate ?p) ?others) = Inr xs"
    and x: "x = (snd ?p - dot (tl (fst ?p)) xs) / hd (fst ?p) # xs"
    using Suc.prems(1) piv by (auto simp: Let_def split: sum.splits)
  have lo: "length (map (eliminate ?p) ?others) = n"
    using k Suc.prems(2) by simp
  have sub: "set ?others \<subseteq> set rows"
    by (auto dest: in_set_takeD in_set_dropD)
  have wf: "\<forall>r \<in> set (map (eliminate ?p) ?others). length (fst r) = n"
    using sub Suc.prems(3) lp by (auto intro!: length_eliminate)
  from Suc.IH [OF rec lo wf]
  have lxs: "length xs = n" and sol: "\<forall>r \<in> set ?others. dot (fst (eliminate ?p r)) xs = snd (eliminate ?p r)"
    by auto
  let ?xh = "(snd ?p - dot (tl (fst ?p)) xs) / hd (fst ?p)"
  have ep: "hd (fst ?p) * ?xh + dot (tl (fst ?p)) xs = snd ?p"
    using piv by simp
  have "dot (fst r) x = snd r" if r: "r \<in> set rows" for r
  proof (cases "r = ?p")
    case True
    then show ?thesis using ep lp by (simp add: x dot_hd_tl)
  next
    case False
    then have ro: "r \<in> set ?others" using r set_split_at [OF k] by auto
    have lr: "length (fst r) = Suc n" using Suc.prems(3) r by blast
    let ?m = "hd (fst r) / hd (fst ?p)"
    have "dot (tl (fst r)) xs - ?m * dot (tl (fst ?p)) xs = snd r - ?m * snd ?p"
      using sol ro eliminate_dot [OF lp lr, of xs] by (simp add: eliminate_def Let_def)
    moreover have "hd (fst r) * ?xh = ?m * (snd ?p - dot (tl (fst ?p)) xs)"
      by simp
    ultimately have "hd (fst r) * ?xh + dot (tl (fst r)) xs = snd r"
      by (simp add: algebra_simps)
    then show ?thesis using lr by (simp add: x dot_hd_tl)
  qed
  then show ?case using lxs x by simp
qed

lemma gauss_singular:
  "gauss n rows = Inl e \<Longrightarrow> length rows = n \<Longrightarrow> (\<forall>r \<in> set rows. length (fst r) = n) \<Longrightarrow>
   e = LinAlgError \<and> (\<exists>y. length y = n \<and> y \<noteq> replicate n 0 \<and> (\<forall>r \<in> set rows. dot (fst r) y = 0))"
proof (induction n arbitrary: rows)
  case 0
  then show ?case by simp
next
  case (Suc n)
  let ?k = "pivot_index rows"
  let ?p = "rows ! ?k"
  let ?others = "take ?k rows @ drop (Suc ?k) rows"
  have ne: "rows \<noteq> []" using Suc.prems(2) by auto
  have k: "?k < length rows" using ne by (rule pivot_index_less)
  have pin: "?p \<in> set rows" using k by simp
  have lp: "length (fst ?p) = Suc n" using Suc.prems(3) pin by blast
  show ?case
  proof (cases "hd (fst ?p) = 0")
    case True
    have e: "e = LinAlgError" using Suc.prems(1) True by (simp add: Let_def)
    let ?y = "1 # replicate n (0::real)"
    have "dot (fst r) ?y = 0" if r: "r \<in> set rows" for r
    proof -
      have "\<bar>hd (fst r)\<bar> \<le> \<bar>hd (fst ?p)\<bar>" using r by (rule pivot_index_max)
      then have "hd (fst r) = 0" using True by simp
      moreover have "length (fst r) = Suc n" using Suc.prems(3) r by blast
      ultimately show ?thesis by (simp add: dot_hd_tl)
    qed
    moreover have "length ?y = Suc n" by simp
    moreover have "?y \<noteq> replicate (Suc n) 0" by simp
    ultimately show ?thesis using e by blast
  next
    case False
    then have rec: "gauss n (map (eliminate ?p) ?others) = Inl e"
      using Suc.prems(1) by (auto simp: Let_def split: sum.splits)
    have lo: "length (map (eliminate ?p) ?others) = n"
      using k Suc.prems(2) by simp
    have sub: "set ?others \<subseteq> set rows"
      by (auto dest: in_set_takeD in_set_dropD)
    have wf: "\<forall>r \<in> set (map (eliminate ?p) ?others). length (fst r) = n"
      using sub Suc.prems(3) lp by (auto intro!: length_eliminate)
    from Suc.IH [OF rec lo wf]
    obtain ys where e: "e = LinAlgError" and lys: "length ys = n" and nz: "ys \<noteq> replicate n 0"
      and null: "\<forall>r \<in> set ?others. dot (fst (eliminate ?p r)) ys = 0"
      by auto
    let ?yh = "- dot (tl (fst ?p)) ys / hd (fst ?p)"
    let ?y = "?yh # ys"
    have ep: "hd (fst ?p) * ?yh + dot (tl (fst ?p)) ys = 0"
      using False by simp
    have "dot (fst r) ?y = 0" if r: "r \<in> set rows" for r
    proof (cases "r = ?p")
      case True
      then show ?thesis using ep lp by (simp add: dot_hd_tl)
    next
      case neq: False
      then have ro: "r \<in> set ?others" using r set_split_at [OF k] by auto
      have lr: "length (fst r) = Suc n" using Suc.prems(3) r by blast
      let ?m = "hd (fst r) / hd (fst ?p)"
      have "dot (tl (fst r)) ys - ?m * dot (tl (fst ?p)) ys = 0"
        using null ro eliminate_dot [OF lp lr, of ys] by simp
      moreover have "hd (fst r) * ?yh = - ?m * dot (tl (fst ?p)) ys"
        by simp
      ultimately have "hd (fst r) * ?yh + dot (tl (fst r)) ys = 0"
        by (simp add: algebra_simps)
      then show ?thesis using lr by (simp add: dot_hd_tl)
    qed
    moreover have "length ?y = Suc n" using lys by simp
    moreover have "?y \<noteq> replicate (Suc n) 0" using nz by simp
    ultimately show ?thesis using e by blast
  qed
qed

lemma mv_nth: "i < length A \<Longrightarrow> mv A x ! i = dot (A ! i) x"
  by (simp add: mv_def)

lemma linalg_solve_sound:
  assumes A: "is_mat n n A" and b: "length b = n" and s: "linalg_solve A b = Inr x"
  shows "length x = n \<and> mv A x = b"
proof -
  have lA: "length A = n" using A by (rule is_matD)
  have g: "gauss n (zip A b) = Inr x"
    using s A b lA by (simp add: linalg_solve_def split: if_splits)
  have wf: "\<forall>r \<in> set (zip A b). length (fst r) = n"
    using A by (auto simp: is_mat_def list_all_iff dest: set_zip_leftD)
  have lz: "length (zip A b) = n" using lA b by simp
  from gauss_sound [OF g lz wf]
  have lx: "length x = n" and sol: "\<forall>r \<in> set (zip A b). dot (fst r) x = snd r" by auto
  have "mv A x ! i = b ! i" if i: "i < n" for i
  proof -
    have "(A ! i, b ! i) \<in> set (zip A b)"
      using i lA b by (auto simp: set_zip)
    then have "dot (A ! i) x = b ! i" using sol by fastforce
    then show ?thesis using i lA by (simp add: mv_nth)
  qed
  then have "mv A x = b"
    using lA b by (intro nth_equalityI) simp_all
  then show ?thesis using lx by simp
qed

lemma linalg_solve_regular:
  assumes A: "is_mat n n A" and b: "length b = n"
    and inj: "\<And>y. length y = n \<Longrightarrow> mv A y = replicate n 0 \<Longrightarrow> y = replicate n 0"
  shows "\<exists>x. linalg_solve A b = Inr x"
proof (cases "linalg_solve A b")
  case (Inr x)
  then show ?thesis by blast
next
  case (Inl e)
  have lA: "length A = n" using A by (rule is_matD)
  have g: "gauss n (zip A b) = Inl e"
    using Inl A b lA by (simp add: linalg_solve_def split: if_splits)
  have wf: "\<forall>r \<in> set (zip A b). length (fst r) = n"
    using A by (auto simp: is_mat_def list_all_iff dest: set_zip_leftD)
  have lz: "length (zip A b) = n" using lA b by simp
  from gauss_singular [OF g lz wf]
  obtain y where ly: "length y = n" and nz: "y \<noteq> replicate n 0"
    and null: "\<forall>r \<in> set (zip A b). dot (fst r) y = 0" by auto
  have "mv A y ! i = replicate n 0 ! i" if i: "i < n" for i
  proof -
    have "(A ! i, b ! i) \<in> set (zip A b)"
      using i lA b by (auto simp: set_zip)
    then have "dot (A ! i) y = 0" using null by fastforce
    then show ?thesis using i lA by (simp add: mv_nth)
  qed
  then have "mv A y = replicate n 0"
    using lA by (intro nth_equalityI) simp_all
  from inj [OF ly this] nz show ?thesis by simp
qed

lemma col_nth: "i < length A \<Longrightarrow> col A j ! i = A ! i ! j"
  by (simp add: col_def)

lemma length_col [simp]: "length (col A j) = length A"
  by (simp add: col_def)

lemma mT_is_mat: "is_mat m n A \<Longrightarrow> 0 < m \<Longrightarrow> is_mat n m (mT A)"
  by (rule is_matI) (simp_all add: mT_def ncols_is_mat is_matD)

lemma mT_nth: "is_mat m n A \<Longrightarrow> 0 < m \<Longrightarrow> j < n \<Longrightarrow> i < m \<Longrightarrow> mT A ! j ! i = A ! i ! j"
  by (simp add: mT_def ncols_is_mat col_nth is_matD)

lemma mT_nth_col: "is_mat m n A \<Longrightarrow> 0 < m \<Longrightarrow> j < n \<Longrightarrow> mT A ! j = col A j"
  by (simp add: mT_def ncols_is_mat)

lemma mm_is_mat: "is_mat m n A \<Longrightarrow> is_mat n p B \<Longrightarrow> 0 < n \<Longrightarrow> is_mat m p (mm A B)"
  by (rule is_matI) (simp_all add: mm_def ncols_is_mat is_matD)

lemma mm_nth: "is_mat m n A \<Longrightarrow> is_mat n p B \<Longrightarrow> 0 < n \<Longrightarrow> i < m \<Longrightarrow> j < p \<Longrightarrow>
   mm A B ! i ! j = dot (A ! i) (col B j)"
  by (simp add: mm_def ncols_is_mat is_matD)

lemma mv_mm:
  assumes A: "is_mat m n A" and B: "is_mat n p B" and n: "0 < n" and y: "length y = p"
  shows "mv (mm A B) y = mv A (mv B y)"
proof (rule nth_equalityI)
  show "length (mv (mm A B) y) = length (mv A (mv B y))"
    by (simp add: mm_def)
next
  fix i assume "i < length (mv (mm A B) y)"
  then have i: "i < m" using A by (simp add: mm_def is_matD)
  have lA: "length A = m" and lB: "length B = n" using A B by (auto dest: is_matD)
  have lAi: "length (A ! i) = n" using A i by (rule is_mat_nth)
  have lr: "length (mm A B ! i) = p"
    using mm_is_mat [OF A B n] i by (rule is_mat_nth)
  have lBk: "length (B ! k) = p" if "k < n" for k using B that by (rule is_mat_nth)
  have "mv (mm A B) y ! i = dot (mm A B ! i) y"
    using i lA by (simp add: mv_nth mm_def)
  also have "\<dots> = (\<Sum>j<p. mm A B ! i ! j * y ! j)"
    using lr y by (simp add: dot_sum)
  also have "\<dots> = (\<Sum>j<p. (\<Sum>k<n. A ! i ! k * B ! k ! j) * y ! j)"
  proof (rule sum.cong [OF refl])
    fix j assume "j \<in> {..<p}"
    then have j: "j < p" by simp
    have "mm A B ! i ! j = dot (A ! i) (col B j)" using A B n i j by (rule mm_nth)
    also have "\<dots> = (\<Sum>k<n. A ! i ! k * col B j ! k)"
      using lAi lB by (simp add: dot_sum)
    also have "\<dots> = (\<Sum>k<n. A ! i ! k * B ! k ! j)"
      using lB by (intro sum.cong) (simp_all add: col_nth)
    finally show "mm A B ! i ! j * y ! j = (\<Sum>k<n. A ! i ! k * B ! k ! j) * y ! j" by simp
  qed
  also have "\<dots> = (\<Sum>j<p. \<Sum>k<n. A ! i ! k * B ! k ! j * y ! j)"
    by (simp add: sum_distrib_right)
  also have "\<dots> = (\<Sum>k<n. \<Sum>j<p. A ! i ! k * B ! k ! j * y ! j)"
    by (rule sum.swap)
  also have "\<dots> = (\<Sum>k<n. A ! i ! k * (\<Sum>j<p. B ! k ! j * y ! j))"
    by (simp add: sum_distrib_left mult.assoc)
  also have "\<dots> = (\<Sum>k<n. A ! i ! k * mv B y ! k)"
  proof (rule sum.cong [OF refl])
    fix k assume "k \<in> {..<n}"
    then have k: "k < n" by simp
    have "mv B y ! k = dot (B ! k) y" using k lB by (simp add: mv_nth)
    also have "\<dots> = (\<Sum>j<p. B ! k ! j * y ! j)" using lBk [OF k] y by (simp add: dot_sum)
    finally show "A ! i ! k * (\<Sum>j<p. B ! k ! j * y ! j) = A ! i ! k * mv B y ! k" by simp
  qed
  also have "\<dots> = dot (A ! i) (mv B y)"
    using lAi lB by (simp add: dot_sum)
  also have "\<dots> = mv A (mv B y) ! i"
    using i lA by (simp add: mv_nth)
  finally show "mv (mm A B) y ! i = mv A (mv B y) ! i" .
qed

lemma dot_mv_adjoint:
  assumes A: "is_mat m n A" and m: "0 < m" and y: "length y = m" and z: "length z = n"
  shows "dot y (mv A z) = dot (mv (mT A) y) z"
proof -
  have lA: "length A = m" using A by (rule is_matD)
  have lT: "length (mT A) = n" using mT_is_mat [OF A m] by (rule is_matD)
  have "dot y (mv A z) = (\<Sum>i<m. y ! i * mv A z ! i)"
    using y lA by (simp add: dot_sum)
  also have "\<dots> = (\<Sum>i<m. y ! i * (\<Sum>k<n. A ! i ! k * z ! k))"
  proof (rule sum.cong [OF refl])
    fix i assume "i \<in> {..<m}"
    then have i: "i < m" by simp
    have "mv A z ! i = dot (A ! i) z" using i lA by (simp add: mv_nth)
    also have "\<dots> = (\<Sum>k<n. A ! i ! k * z ! k)"
      using is_mat_nth [OF A i] z by (simp add: dot_sum)
    finally show "y ! i * mv A z ! i = y ! i * (\<Sum>k<n. A ! i ! k * z ! k)" by simp
  qed
  also have "\<dots> = (\<Sum>i<m. \<Sum>k<n. y ! i * (A ! i ! k * z ! k))"
    by (simp add: sum_distrib_left)
  also have "\<dots> = (\<Sum>k<n. \<Sum>i<m. y ! i * (A ! i ! k * z ! k))"
    by (rule sum.swap)
  also have "\<dots> = (\<Sum>k<n. (\<Sum>i<m. A ! i ! k * y ! i) * z ! k)"
    by (simp add: sum_distrib_right sum_distrib_left mult_ac)
  also have "\<dots> = (\<Sum>k<n. mv (mT A) y ! k * z ! k)"
  proof (rule sum.cong [OF refl])
    fix k assume "k \<in> {..<n}"
    then have k: "k < n" by simp
    have "mv (mT A) y ! k = dot (mT A ! k) y" using k lT by (simp add: mv_nth)
    also have "\<dots> = dot (col A k) y" using A m k by (simp add: mT_nth_col)
    also have "\<dots> = (\<Sum>i<m. col A k ! i * y ! i)" using lA y by (simp add: dot_sum)
    also have "\<dots> = (\<Sum>i<m. A ! i ! k * y ! i)"
      using lA by (intro sum.cong) (simp_all add: col_nth)
    finally show "(\<Sum>i<m. A ! i ! k * y ! i) * z ! k = mv (mT A) y ! k * z ! k" by simp
  qed
  also have "\<dots> = dot (mv (mT A) y) z"
    using lT z by (simp add: dot_sum)
  finally show ?thesis .
qed

lemma eye_is_mat: "is_mat n n (eye n)"
  by (rule is_matI) (simp_all add: eye_def)

lemma eye_nth: "i < n \<Longrightarrow> j < n \<Longrightarrow> eye n ! i ! j = (if i = j then 1 else 0)"
  by (simp add: eye_def)

lemma msmul_is_mat: "is_mat m n A \<Longrightarrow> is_mat m n (msmul c A)"
  by (rule is_matI) (simp_all add: msmul_def is_matD is_mat_nth)

lemma madd_is_mat: "is_mat m n A \<Longrightarrow> is_mat m n B \<Longrightarrow> is_mat m n (madd A B)"
  by (rule is_matI) (simp_all add: madd_def is_matD is_mat_nth)

lemma madd_nth: "i < length A \<Longrightarrow> i < length B \<Longrightarrow> madd A B ! i = vadd (A ! i) (B ! i)"
  by (simp add: madd_def)

lemma msmul_nth: "i < length A \<Longrightarrow> msmul c A ! i = smul c (A ! i)"
  by (simp add: msmul_def)

lemma vadd_nth: "i < length a \<Longrightarrow> i < length b \<Longrightarrow> vadd a b ! i = a ! i + b ! i"
  by (simp add: vadd_def)

lemma smul_nth: "i < length a \<Longrightarrow> smul c a ! i = c * a ! i"
  by (simp add: smul_def)

lemma dot_vadd_left: "length a = length b \<Longrightarrow> length b = length y \<Longrightarrow> dot (vadd a b) y = dot a y + dot b y"
  by (simp add: dot_sum vadd_nth sum.distrib distrib_right)

lemma dot_smul_left: "length a = length y \<Longrightarrow> dot (smul c a) y = c * dot a y"
  by (simp add: dot_sum smul_nth sum_distrib_left mult.assoc)

lemma dot_eye: "i < n \<Longrightarrow> length y = n \<Longrightarrow> dot (eye n ! i) y = y ! i"
proof -
  assume i: "i < n" and y: "length y = n"
  have "length (eye n ! i) = n" using eye_is_mat i by (rule is_mat_nth)
  then have "dot (eye n ! i) y = (\<Sum>j<n. eye n ! i ! j * y ! j)"
    using y by (simp add: dot_sum)
  also have "\<dots> = (\<Sum>j<n. if j = i then y ! j else 0)"
    using i by (intro sum.cong) (auto simp: eye_nth)
  also have "\<dots> = y ! i"
    using i by simp
  finally show ?thesis .
qed

lemma dot_self_nonneg: "0 \<le> dot y y"
  by (induction y) simp_all

lemma dot_self_zero: "dot y y = 0 \<Longrightarrow> y = replicate (length y) 0"
proof (induction y)
  case Nil
  show ?case by simp
next
  case (Cons a y)
  have "a * a + dot y y = 0" using Cons.prems by simp
  moreover have "0 \<le> a * a" by simp
  moreover have "0 \<le> dot y y" by (rule dot_self_nonneg)
  ultimately have "a * a = 0" and "dot y y = 0" by linarith+
  then show ?case using Cons.IH by simp
qed

lemma gram_nth:
  assumes J: "is_mat n n J" and n: "0 < n" and i: "i < n" and j: "j < n"
  shows "mm J (mT J) ! i ! j = dot (J ! i) (J ! j)"
proof -
  have T: "is_mat n n (mT J)" using J n by (rule mT_is_mat)
  have "col (mT J) j = J ! j"
  proof (rule nth_equalityI)
    show "length (col (mT J) j) = length (J ! j)"
      using T J j by (simp add: is_matD is_mat_nth)
  next
    fix k assume "k < length (col (mT J) j)"
    then have k: "k < n" using T by (simp add: is_matD)
    show "col (mT J) j ! k = J ! j ! k"
      using J n k j T by (simp add: col_nth is_matD mT_nth)
  qed
  then show ?thesis using mm_nth [OF J T n i j] by simp
qed

lemma damped_is_mat:
  "is_mat n n J \<Longrightarrow> 0 < n \<Longrightarrow> is_mat n n (madd (mm J (mT J)) (msmul c (eye n)))"
  by (intro madd_is_mat mm_is_mat mT_is_mat msmul_is_mat eye_is_mat)

lemma damped_nth:
  assumes J: "is_mat n n J" and n: "0 < n" and i: "i < n" and j: "j < n"
  shows "madd (mm J (mT J)) (msmul c (eye n)) ! i ! j = dot (J ! i) (J ! j) + (if i = j then c else 0)"
proof -
  have G: "is_mat n n (mm J (mT J))" using J n by (intro mm_is_mat mT_is_mat)
  have E: "is_mat n n (msmul c (eye n))" by (intro msmul_is_mat eye_is_mat)
  have "madd (mm J (mT J)) (msmul c (eye n)) ! i = vadd (mm J (mT J) ! i) (msmul c (eye n) ! i)"
    using G E i by (simp add: madd_nth is_matD)
  moreover have "length (mm J (mT J) ! i) = n" using G i by (rule is_mat_nth)
  moreover have "length (msmul c (eye n) ! i) = n" using E i by (rule is_mat_nth)
  moreover have "msmul c (eye n) ! i ! j = (if i = j then c else 0)"
    using i j eye_is_mat [of n] by (simp add: msmul_nth smul_nth is_matD is_mat_nth eye_nth)
  ultimately show ?thesis
    using j gram_nth [OF J n i j] by (simp add: vadd_nth)
qed

lemma damped_symmetric:
  assumes J: "is_mat n n J" and n: "0 < n"
  shows "mT (madd (mm J (mT J)) (msmul c (eye n))) = madd (mm J (mT J)) (msmul c (eye n))"
proof -
  let ?A = "madd (mm J (mT J)) (msmul c (eye n))"
  have A: "is_mat n n ?A" using J n by (rule damped_is_mat)
  have T: "is_mat n n (mT ?A)" using A n by (rule mT_is_mat)
  show ?thesis
  proof (rule nth_equalityI)
    show "length (mT ?A) = length ?A" using A T by (simp add: is_matD)
  next
    fix i assume "i < length (mT ?A)"
    then have i: "i < n" using T by (simp add: is_matD)
    show "mT ?A ! i = ?A ! i"
    proof (rule nth_equalityI)
      show "length (mT ?A ! i) = length (?A ! i)" using A T i by (simp add: is_mat_nth)
    next
      fix j assume "j < length (mT ?A ! i)"
      then have j: "j < n" using T i by (simp add: is_mat_nth)
      have "mT ?A ! i ! j = ?A ! j ! i" using A n i j by (rule mT_nth)
      also have "\<dots> = ?A ! i ! j"
        using damped_nth [OF J n i j, of c] damped_nth [OF J n j i, of c]
        by (simp add: dot_commute)
      finally show "mT ?A ! i ! j = ?A ! i ! j" .
    qed
  qed
qed

lemma mv_damped:
  assumes J: "is_mat n n J" and n: "0 < n" and y: "length y = n"
  shows "mv (madd (mm J (mT J)) (msmul c (eye n))) y = vadd (mv J (mv (mT J) y)) (smul c y)"
proof (rule nth_equalityI)
  let ?A = "madd (mm J (mT J)) (msmul c (eye n))"
  have A: "is_mat n n ?A" using J n by (rule damped_is_mat)
  have T: "is_mat n n (mT J)" using J n by (rule mT_is_mat)
  have G: "is_mat n n (mm J (mT J))" using J n by (intro mm_is_mat mT_is_mat)
  have E: "is_mat n n (msmul c (eye n))" by (intro msmul_is_mat eye_is_mat)
  show "length (mv ?A y) = length (vadd (mv J (mv (mT J) y)) (smul c y))"
    using A J y by (simp add: is_matD)
  fix i assume "i < length (mv ?A y)"
  then have i: "i < n" using A by (simp add: is_matD)
  have lG: "length (mm J (mT J) ! i) = n" using G i by (rule is_mat_nth)
  have lE: "length (msmul c (eye n) ! i) = n" using E i by (rule is_mat_nth)
  have "mv ?A y ! i = dot (vadd (mm J (mT J) ! i) (msmul c (eye n) ! i)) y"
    using A G E i by (simp add: mv_nth madd_nth is_matD)
  also have "\<dots> = dot (mm J (mT J) ! i) y + dot (msmul c (eye n) ! i) y"
    using lG lE y by (simp add: dot_vadd_left)
  also have "dot (mm J (mT J) ! i) y = mv (mm J (mT J)) y ! i"
    using G i by (simp add: mv_nth is_matD)
  also have "mv (mm J (mT J)) y = mv J (mv (mT J) y)"
    using J T n y by (rule mv_mm)
  also have "dot (msmul c (eye n) ! i) y = c * y ! i"
    using i y eye_is_mat [of n] by (simp add: msmul_nth is_matD is_mat_nth dot_smul_left dot_eye)
  finally show "mv ?A y ! i = vadd (mv J (mv (mT J) y)) (smul c y) ! i"
    using i J y by (simp add: vadd_nth smul_nth is_matD)
qed

lemma dot_vadd_right: "length a = length b \<Longrightarrow> length b = length y \<Longrightarrow> dot y (vadd a b) = dot y a + dot y b"
  using dot_vadd_left [of a b y] by (simp add: dot_commute)

lemma dot_smul_right: "length a = length y \<Longrightarrow> dot y (smul c a) = c * dot y a"
  using dot_smul_left [of a y c] by (simp add: dot_commute)

lemma damped_quadratic_form:
  assumes J: "is_mat n n J" and n: "0 < n" and y: "length y = n"
  shows "dot y (mv (madd (mm J (mT J)) (msmul c (eye n))) y)
         = dot (mv (mT J) y) (mv (mT J) y) + c * dot y y"
proof -
  have T: "is_mat n n (mT J)" using J n by (rule mT_is_mat)
  have lT: "length (mv (mT J) y) = n" using T by (simp add: is_matD)
  have "dot y (mv (madd (mm J (mT J)) (msmul c (eye n))) y)
        = dot y (vadd (mv J (mv (mT J) y)) (smul c y))"
    using J n y by (simp only: mv_damped)
  also have "\<dots> = dot y (mv J (mv (mT J) y)) + dot y (smul c y)"
    using J y by (simp add: dot_vadd_right is_matD)
  also have "dot y (mv J (mv (mT J) y)) = dot (mv (mT J) y) (mv (mT J) y)"
    using J n y lT by (rule dot_mv_adjoint)
  also have "dot y (smul c y) = c * dot y y"
    by (simp add: dot_smul_right)
  finally show ?thesis .
qed

lemma damped_positive_definite:
  assumes J: "is_mat n n J" and n: "0 < n" and y: "length y = n" and c: "0 < c"
    and nz: "y \<noteq> replicate n 0"
  shows "0 < dot y (mv (madd (mm J (mT J)) (msmul c (eye n))) y)"
proof -
  have "dot y y \<noteq> 0" using dot_self_zero [of y] nz y by auto
  then have "0 < dot y y" using dot_self_nonneg [of y] by simp
  then have "0 < c * dot y y" using c by simp
  moreover have "0 \<le> dot (mv (mT J) y) (mv (mT J) y)" by (rule dot_self_nonneg)
  ultimately show ?thesis
    using damped_quadratic_form [OF J n y, of c] by simp
qed

lemma damped_solve:
  assumes J: "is_mat n n J" and n: "0 < n" and e: "length e = n" and c: "0 < c"
  shows "\<exists>x. linalg_solve (madd (mm J (mT J)) (msmul c (eye n))) e = Inr x \<and> length x = n \<and>
             mv (madd (mm J (mT J)) (msmul c (eye n))) x = e"
proof -
  let ?A = "madd (mm J (mT J)) (msmul c (eye n))"
  have A: "is_mat n n ?A" using J n by (rule damped_is_mat)
  have inj: "y = replicate n 0" if ly: "length y = n" and z: "mv ?A y = replicate n 0" for y
  proof (rule ccontr)
    assume "y \<noteq> replicate n 0"
    then have "0 < dot y (mv ?A y)" using J n ly c by (intro damped_positive_definite)
    then show False using z by simp
  qed
  obtain x where x: "linalg_solve ?A e = Inr x"
    using linalg_solve_regular [OF A e inj] by blast
  from linalg_solve_sound [OF A e x] x show ?thesis by blast
qed

section \<open>Shapes\<close>

lemma upt_4: "[0..<4] = [0, 1, 2, 3::nat]"
  by (simp add: upt_rec)

lemma eye_4: "eye 4 = [[1, 0, 0, 0], [0, 1, 0, 0], [0, 0, 1, 0], [0, 0, 0, 1]]"
  by (simp add: eye_def upt_4)

lemma eye_3: "eye 3 = [[1, 0, 0], [0, 1, 0], [0, 0, 1]]"
  by (simp add: eye_def upt_rec)

lemma rotation_angle_eye: "rotation_angle (eye 3) = 0"
  by (simp add: rotation_angle_def eye_3 trace3_def clip_def)

lemma mm_4_4:
  "mm [[a11, a12, a13, a14], [a21, a22, a23, a24], [a31, a32, a33, a34], [a41, a42, a43, a44]]
      [[b11, b12, b13, b14], [b21, b22, b23, b24], [b31, b32, b33, b34], [b41, b42, b43, b44]] =
   [[a11 * b11 + (a12 * b21 + (a13 * b31 + a14 * b41)), a11 * b12 + (a12 * b22 + (a13 * b32 + a14 * b42)),
     a11 * b13 + (a12 * b23 + (a13 * b33 + a14 * b43)), a11 * b14 + (a12 * b24 + (a13 * b34 + a14 * b44))],
    [a21 * b11 + (a22 * b21 + (a23 * b31 + a24 * b41)), a21 * b12 + (a22 * b22 + (a23 * b32 + a24 * b42)),
     a21 * b13 + (a22 * b23 + (a23 * b33 + a24 * b43)), a21 * b14 + (a22 * b24 + (a23 * b34 + a24 * b44))],
    [a31 * b11 + (a32 * b21 + (a33 * b31 + a34 * b41)), a31 * b12 + (a32 * b22 + (a33 * b32 + a34 * b42)),
     a31 * b13 + (a32 * b23 + (a33 * b33 + a34 * b43)), a31 * b14 + (a32 * b24 + (a33 * b34 + a34 * b44))],
    [a41 * b11 + (a42 * b21 + (a43 * b31 + a44 * b41)), a41 * b12 + (a42 * b22 + (a43 * b32 + a44 * b42)),
     a41 * b13 + (a42 * b23 + (a43 * b33 + a44 * b43)), a41 * b14 + (a42 * b24 + (a43 * b34 + a44 * b44))]]"
  by (simp add: mm_def col_def ncols_def)

lemma rot_is_mat: "is_mat 4 4 (rotx t)" "is_mat 4 4 (roty t)" "is_mat 4 4 (rotz t)"
  by (simp_all add: is_mat_def rotx_def roty_def rotz_def Let_def)

lemma create_transform_is_mat: "is_mat 4 4 (create_transform xyz rpy)"
proof -
  obtain x y z where xyz: "xyz = (x, y, z)" by (cases xyz) auto
  obtain r p yw where rpy: "rpy = (r, p, yw)" by (cases rpy) auto
  show ?thesis
    unfolding xyz rpy
    by (simp add: create_transform_def rotx_def roty_def rotz_def Let_def mm_4_4 rotation_part_def
        eye_4 is_mat_def)
qed

lemma joint_transform_is_mat: "is_mat 4 4 (joint_transform xyz rpy t a)"
  unfolding joint_transform_def Let_def
  by (intro mm_is_mat [where n = 4] create_transform_is_mat) (simp_all add: rot_is_mat)

lemma forward_kinematics_short: "length q < 6 \<Longrightarrow> forward_kinematics f q = Inl IndexError"
  by (simp add: forward_kinematics_def)

lemma forward_kinematics_shape:
  assumes "6 \<le> length q"
  shows "\<exists>poses. forward_kinematics f q = Inr poses \<and> is_mat 4 4 (base poses) \<and>
           is_mat 4 4 (shoulder poses) \<and> is_mat 4 4 (upper_arm poses) \<and> is_mat 4 4 (forearm poses) \<and>
           is_mat 4 4 (wrist_1 poses) \<and> is_mat 4 4 (wrist_2 poses) \<and> is_mat 4 4 (wrist_3 poses)"
proof -
  have m: "is_mat 4 4 A \<Longrightarrow> is_mat 4 4 (mm A (joint_transform xyz rpy t a))" for A xyz rpy t a
    by (rule mm_is_mat [where n = 4]) (simp_all add: joint_transform_is_mat)
  have e: "is_mat 4 4 (eye 4)" by (rule eye_is_mat)
  show ?thesis
    using assms by (simp add: forward_kinematics_def Let_def m e)
qed

lemma get_end_effector_transform_shape:
  "6 \<le> length q \<Longrightarrow> \<exists>T. get_end_effector_transform f q = Inr T \<and> is_mat 4 4 T"
  using forward_kinematics_shape [of q f] by (auto simp: get_end_effector_transform_def)

lemma get_end_effector_transform_short:
  "length q < 6 \<Longrightarrow> get_end_effector_transform f q = Inl IndexError"
  by (simp add: get_end_effector_transform_def forward_kinematics_short)

lemma get_end_effector_transform_Inr:
  "get_end_effector_transform f q = Inr T \<Longrightarrow> 6 \<le> length q \<and> is_mat 4 4 T"
  using get_end_effector_transform_shape [of q f] get_end_effector_transform_short [of q f]
  by (cases "length q < 6") auto

lemma length_translation_part: "is_mat 4 4 T \<Longrightarrow> length (translation_part T) = 3"
  by (simp add: translation_part_def is_mat_def)

lemma rotation_part_is_mat: "is_mat 4 4 T \<Longrightarrow> is_mat 3 3 (rotation_part T)"
  by (auto simp: rotation_part_def is_mat_def list_all_iff dest: in_set_takeD)

lemma length_skew_vector [simp]: "length (skew_vector R) = 3"
  by (simp add: skew_vector_def)

lemma length_orientation_error [simp]: "length (orientation_error self Rd Rc) = 3"
  by (simp add: orientation_error_def Let_def)

lemma jacobian_column_shape:
  assumes q: "6 \<le> length q" and p: "length p0 = 3"
  shows "\<exists>c. jacobian_column self q d p0 R0 i = Inr c \<and> length c = 6"
proof -
  have "6 \<le> length (q[i := q ! i + d])" using q by simp
  then obtain T where T: "get_end_effector_transform (fk self) (q[i := q ! i + d]) = Inr T"
    and s: "is_mat 4 4 T"
    using get_end_effector_transform_shape by blast
  show ?thesis
    using T p length_translation_part [OF s]
    by (simp add: jacobian_column_def Let_def)
qed

lemma jacobian_columns_shape:
  assumes q: "6 \<le> length q" and p: "length p0 = 3"
  shows "\<exists>cs. jacobian_columns self q d p0 R0 is = Inr cs \<and> is_mat (length is) 6 cs"
proof (induction "is")
  case Nil
  show ?case by (simp add: is_mat_def)
next
  case (Cons i "is")
  obtain c where c: "jacobian_column self q d p0 R0 i = Inr c" "length c = 6"
    using jacobian_column_shape [OF q p] by blast
  obtain cs where cs: "jacobian_columns self q d p0 R0 is = Inr cs" "is_mat (length is) 6 cs"
    using Cons.IH by blast
  show ?case using c cs by (simp add: is_mat_def)
qed

lemma numerical_jacobian_shape:
  assumes q: "6 \<le> length q"
  shows "\<exists>J. numerical_jacobian self q d = Inr J \<and> is_mat 6 6 J"
proof -
  obtain T0 where T0: "get_end_effector_transform (fk self) q = Inr T0" and s: "is_mat 4 4 T0"
    using get_end_effector_transform_shape [OF q] by blast
  have p: "length (translation_part T0) = 3" using s by (rule length_translation_part)
  obtain cs where cs: "jacobian_columns self q d (translation_part T0) (rotation_part T0) [0..<6] = Inr cs"
      and m: "is_mat (length [0..<6]) 6 cs"
    using jacobian_columns_shape [OF q p] by blast
  have "is_mat 6 6 cs" using m by simp
  then have "is_mat 6 6 (mT cs)" by (rule mT_is_mat) simp
  then show ?thesis using T0 cs by (simp add: numerical_jacobian_def Let_def)
qed

lemma numerical_jacobian_Inr:
  "numerical_jacobian self q d = Inr J \<Longrightarrow> is_mat 6 6 J"
proof -
  assume J: "numerical_jacobian self q d = Inr J"
  have "6 \<le> length q"
  proof (rule ccontr)
    assume "\<not> 6 \<le> length q"
    then have "get_end_effector_transform (fk self) q = Inl IndexError"
      by (simp add: get_end_effector_transform_short)
    then show False using J by (simp add: numerical_jacobian_def)
  qed
  from numerical_jacobian_shape [OF this, of self d] J show ?thesis by auto
qed

section \<open>The loop of the solver\<close>

lemma solve_iterations_step:
  "solve_iterations self T (Suc n) q =
     (case pose_errors self T q of
        Inl e \<Rightarrow> Inl e
      | Inr err \<Rightarrow>
          if converged self T q then Inr (if verify self q T 0.0001 0.005 then Some q else None)
          else case dls_step self T q of
                 Inl e \<Rightarrow> Inl e
               | Inr q' \<Rightarrow> solve_iterations self T n q')"
  by (simp add: pose_errors_def converged_def dls_step_def Let_def split: sum.splits)

declare solve_iterations.simps(2) [simp del]

lemma pose_errors_shape:
  assumes q: "6 \<le> length q" and T: "is_mat 4 4 T"
  shows "\<exists>dp dw. pose_errors self T q = Inr (dp, dw) \<and> length dp = 3 \<and> length dw = 3"
proof -
  obtain Tc where Tc: "get_end_effector_transform (fk self) q = Inr Tc" and s: "is_mat 4 4 Tc"
    using get_end_effector_transform_shape [OF q] by blast
  show ?thesis
    using Tc length_translation_part [OF s] length_translation_part [OF T]
    by (simp add: pose_errors_def)
qed

lemma dls_step_shape:
  assumes q: "length q = 6" and T: "is_mat 4 4 T"
  shows "\<exists>q'. dls_step self T q = Inr q' \<and> length q' = 6"
proof -
  obtain dp dw where e: "pose_errors self T q = Inr (dp, dw)" and l: "length dp = 3" "length dw = 3"
    using pose_errors_shape [OF _ T, of q self] q by auto
  obtain J where J: "numerical_jacobian self q 0.000001 = Inr J" and m: "is_mat 6 6 J"
    using numerical_jacobian_shape [of q self] q by auto
  have le: "length (dp @ dw) = 6" using l by simp
  obtain y where y: "linalg_solve (madd (mm J (mT J)) (msmul (0.01 ^ 2) (eye 6))) (dp @ dw) = Inr y"
      and ly: "length y = 6"
    using damped_solve [OF m _ le, of "0.01 ^ 2"] by auto
  have "is_mat 6 6 (mT J)" using m by (rule mT_is_mat) simp
  then have lT: "length (mT J) = 6" by (rule is_matD)
  show ?thesis
    using e J y q lT by (simp add: dls_step_def)
qed

lemma solve_iterations_total:
  assumes T: "is_mat 4 4 T"
  shows "length q = 6 \<Longrightarrow> \<exists>r. solve_iterations self T n q = Inr r \<and> (\<forall>x. r = Some x \<longrightarrow> length x = 6)"
proof (induction n arbitrary: q)
  case 0
  show ?case by simp
next
  case (Suc n)
  obtain dp dw where e: "pose_errors self T q = Inr (dp, dw)"
    using pose_errors_shape [OF _ T, of q self] Suc.prems by auto
  obtain q' where s: "dls_step self T q = Inr q'" and l: "length q' = 6"
    using dls_step_shape [OF Suc.prems T] by blast
  show ?case
    using e s Suc.IH [OF l] Suc.prems by (simp add: solve_iterations_step)
qed

lemma solve_iterations_Some:
  "solve_iterations self T n q0 = Inr (Some q) \<Longrightarrow> converged self T q \<and> verify self q T 0.0001 0.005"
proof (induction n arbitrary: q0)
  case 0
  then show ?case by simp
next
  case (Suc n)
  then show ?case
    by (auto simp: solve_iterations_step split: sum.splits if_splits)
qed

section \<open>Normalisation of joint angles\<close>

declare wrap_down.simps [simp del] wrap_up.simps [simp del]

lemma wrap_down_range: "wrap_down x \<le> pi \<and> (x \<le> pi \<longrightarrow> wrap_down x = x) \<and> (pi < x \<longrightarrow> - pi < wrap_down x)"
proof (induction x rule: wrap_down.induct)
  case (1 x)
  show ?case
  proof (cases "pi < x")
    case True
    with 1 show ?thesis
      by (subst (1 2 3) wrap_down.simps) (auto simp: not_less)
  next
    case False
    then show ?thesis by (subst (1 2) wrap_down.simps) simp
  qed
qed

lemma wrap_down_shift: "\<exists>k::int. wrap_down x = x + 2 * pi * of_int k"
proof (induction x rule: wrap_down.induct)
  case (1 x)
  show ?case
  proof (cases "pi < x")
    case True
    with 1 obtain k :: int where "wrap_down (x - 2 * pi) = x - 2 * pi + 2 * pi * of_int k" by blast
    then have "wrap_down x = x + 2 * pi * of_int (k - 1)"
      using True by (subst wrap_down.simps) (simp add: algebra_simps)
    then show ?thesis by blast
  next
    case False
    then have "wrap_down x = x + 2 * pi * of_int 0" by (subst wrap_down.simps) simp
    then show ?thesis by blast
  qed
qed

lemma wrap_up_range: "- pi \<le> wrap_up x \<and> (- pi \<le> x \<longrightarrow> wrap_up x = x) \<and> (x < - pi \<longrightarrow> wrap_up x < pi)"
proof (induction x rule: wrap_up.induct)
  case (1 x)
  show ?case
  proof (cases "x < - pi")
    case True
    with 1 show ?thesis
      by (subst (1 2 3) wrap_up.simps) (auto simp: not_less)
  next
    case False
    then show ?thesis by (subst (1 2) wrap_up.simps) simp
  qed
qed

lemma wrap_up_shift: "\<exists>k::int. wrap_up x = x + 2 * pi * of_int k"
proof (induction x rule: wrap_up.induct)
  case (1 x)
  show ?case
  proof (cases "x < - pi")
    case True
    with 1 obtain k :: int where "wrap_up (x + 2 * pi) = x + 2 * pi + 2 * pi * of_int k" by blast
    then have "wrap_up x = x + 2 * pi * of_int (k + 1)"
      using True by (subst wrap_up.simps) (simp add: algebra_simps)
    then show ?thesis by blast
  next
    case False
    then have "wrap_up x = x + 2 * pi * of_int 0" by (subst wrap_up.simps) simp
    then show ?thesis by blast
  qed
qed

lemma normalize1_range: "- pi \<le> wrap_up (wrap_down x) \<and> wrap_up (wrap_down x) \<le> pi"
proof -
  have d: "wrap_down x \<le> pi" using wrap_down_range by blast
  show ?thesis
  proof (cases "wrap_down x < - pi")
    case True
    then show ?thesis using wrap_up_range [of "wrap_down x"] by auto
  next
    case False
    then show ?thesis using wrap_up_range [of "wrap_down x"] d by auto
  qed
qed

lemma normalize1_shift: "\<exists>k::int. wrap_up (wrap_down x) = x + 2 * pi * of_int k"
proof -
  obtain k :: int where k: "wrap_down x = x + 2 * pi * of_int k" using wrap_down_shift by blast
  obtain l :: int where l: "wrap_up (wrap_down x) = wrap_down x + 2 * pi * of_int l" using wrap_up_shift by blast
  have "wrap_up (wrap_down x) = x + 2 * pi * of_int k + 2 * pi * of_int l"
    using k l by linarith
  then have "wrap_up (wrap_down x) = x + 2 * pi * of_int (k + l)"
    by (simp add: algebra_simps)
  then show ?thesis by blast
qed

lemma normalize1_fixed: "- pi \<le> x \<Longrightarrow> x \<le> pi \<Longrightarrow> wrap_up (wrap_down x) = x"
  using wrap_down_range [of x] wrap_up_range [of x] by simp


section \<open>Deduplication\<close>

lemma normalize_idem:
  "normalize_joint_angles f (normalize_joint_angles g q) = normalize_joint_angles g q"
  by (simp add: normalize_joint_angles_def normalize1_range normalize1_fixed)

lemma length_normalize [simp]: "length (normalize_joint_angles f q) = length q"
  by (simp add: normalize_joint_angles_def)

lemma vsub_nth: "i < length a \<Longrightarrow> i < length b \<Longrightarrow> vsub a b ! i = a ! i - b ! i"
  by (simp add: vsub_def)

lemma is_duplicate_within:
  assumes a: "length a = 6" and b: "length b = 6" and n: "normalize_joint_angles (fk self) b = b"
  shows "is_duplicate self a b = within_threshold a b"
  using a b by (simp add: is_duplicate_def n list_all_length within_threshold_def vsub_nth)

lemma solve_single_length:
  assumes T: "is_mat 4 4 T" and s: "length seed = 6"
  shows "\<exists>r. solve_single self T seed = Inr r \<and> (\<forall>q. r = Some q \<longrightarrow> length q = 6)"
  unfolding solve_single_def using T s by (rule solve_iterations_total)

lemma list_ex_duplicate:
  assumes g: "good_solutions self sols" and r: "length r = 6"
  shows "list_ex (is_duplicate self r) sols = (\<exists>e \<in> set sols. within_threshold r e)"
  using g r by (auto simp: list_ex_iff good_solutions_def is_duplicate_within)

lemma solve_seeds_spec:
  assumes T: "is_mat 4 4 T"
  shows "\<forall>s \<in> set seeds. length s = 6 \<Longrightarrow> good_solutions self sols \<Longrightarrow>
         solve_seeds self T seeds sols = Inr (spec_first_kept sols (spec_candidates self T seeds))"
proof (induction seeds arbitrary: sols)
  case Nil
  show ?case by simp
next
  case (Cons seed seeds)
  have ls: "length seed = 6" using Cons.prems(1) by simp
  have rest: "\<forall>s \<in> set seeds. length s = 6" using Cons.prems(1) by simp
  obtain r where r: "solve_single self T seed = Inr r" and lr: "\<forall>q. r = Some q \<longrightarrow> length q = 6"
    using solve_single_length [OF T ls] by blast
  show ?case
  proof (cases r)
    case None
    then show ?thesis using r Cons.IH [OF rest Cons.prems(2)] by simp
  next
    case (Some q)
    let ?c = "normalize_joint_angles (fk self) q"
    have lc: "length ?c = 6" using lr Some by simp
    have dup: "list_ex (is_duplicate self ?c) sols = (\<exists>e \<in> set sols. within_threshold ?c e)"
      using Cons.prems(2) lc by (rule list_ex_duplicate)
    let ?sols' = "if \<exists>e \<in> set sols. within_threshold ?c e then sols else sols @ [?c]"
    have g': "good_solutions self ?sols'"
      using Cons.prems(2) lc by (auto simp: good_solutions_def normalize_idem)
    have "solve_seeds self T (seed # seeds) sols = solve_seeds self T seeds ?sols'"
      using r Some dup by (simp add: Let_def)
    also have "\<dots> = Inr (spec_first_kept ?sols' (spec_candidates self T seeds))"
      using rest g' by (rule Cons.IH)
    also have "\<dots> = Inr (spec_first_kept sols (spec_candidates self T (seed # seeds)))"
      using r Some by simp
    finally show ?thesis .
  qed
qed

lemma spec_candidates_good:
  assumes T: "is_mat 4 4 T"
  shows "\<forall>s \<in> set seeds. length s = 6 \<Longrightarrow> good_solutions self (spec_candidates self T seeds)"
proof (induction seeds)
  case Nil
  show ?case by (simp add: good_solutions_def)
next
  case (Cons seed seeds)
  have ls: "length seed = 6" using Cons.prems by simp
  obtain r where r: "solve_single self T seed = Inr r" and lr: "\<forall>q. r = Some q \<longrightarrow> length q = 6"
    using solve_single_length [OF T ls] by blast
  have ih: "good_solutions self (spec_candidates self T seeds)" using Cons by simp
  show ?case
    using r lr ih by (cases r) (auto simp: good_solutions_def normalize_idem)
qed

lemma length_spec_candidates: "length (spec_candidates self T seeds) \<le> length seeds"
  by (induction seeds) (auto split: sum.splits option.splits)

lemma spec_first_kept_append:
  "spec_first_kept kept (cs @ ds) = spec_first_kept (spec_first_kept kept cs) ds"
  by (induction cs arbitrary: kept) simp_all

lemma spec_first_kept_snoc:
  "spec_first_kept kept (cs @ [c]) =
     (if \<exists>e \<in> set (spec_first_kept kept cs). within_threshold c e then spec_first_kept kept cs
      else spec_first_kept kept cs @ [c])"
  by (simp add: spec_first_kept_append)

lemma spec_first_kept_prefix:
  "\<exists>ks. spec_first_kept kept cs = kept @ ks \<and> subseq ks cs"
proof (induction cs arbitrary: kept)
  case Nil
  show ?case by simp
next
  case (Cons c cs)
  show ?case
  proof (cases "\<exists>e \<in> set kept. within_threshold c e")
    case True
    obtain ks where "spec_first_kept kept cs = kept @ ks" "subseq ks cs" using Cons.IH by blast
    then show ?thesis using True by (auto intro: subseq_Cons')
  next
    case False
    obtain ks where ks: "spec_first_kept (kept @ [c]) cs = (kept @ [c]) @ ks" "subseq ks cs"
      using Cons.IH by blast
    have "spec_first_kept kept (c # cs) = kept @ (c # ks)" using False ks by simp
    moreover have "subseq (c # ks) (c # cs)" using ks by simp
    ultimately show ?thesis by blast
  qed
qed

lemma within_threshold_sym: "within_threshold a b = within_threshold b a"
  by (simp add: within_threshold_def abs_minus_commute)

lemma spec_first_kept_distinct:
  "sorted_wrt (\<lambda>a b. \<not> within_threshold a b) kept \<Longrightarrow>
   sorted_wrt (\<lambda>a b. \<not> within_threshold a b) (spec_first_kept kept cs)"
proof (induction cs arbitrary: kept)
  case Nil
  then show ?case by simp
next
  case (Cons c cs)
  show ?case
  proof (cases "\<exists>e \<in> set kept. within_threshold c e")
    case True
    then show ?thesis using Cons by simp
  next
    case False
    then have "sorted_wrt (\<lambda>a b. \<not> within_threshold a b) (kept @ [c])"
      using Cons.prems by (auto simp: sorted_wrt_append within_threshold_sym)
    then show ?thesis using Cons.IH False by simp
  qed
qed

lemma length_spec_first_kept: "length (spec_first_kept kept cs) \<le> length kept + length cs"
proof (induction cs arbitrary: kept)
  case Nil
  show ?case by simp
next
  case (Cons c cs)
  show ?case using Cons.IH [of "kept @ [c]"] Cons.IH [of kept] by auto
qed

lemma set_spec_first_kept: "set (spec_first_kept kept cs) \<subseteq> set kept \<union> set cs"
  using spec_first_kept_prefix [of kept cs] by (auto dest: list_emb_set)

section \<open>Joint limits\<close>

lemma check_joint_limits_from_eq:
  "i + length q \<le> length limits \<Longrightarrow>
   check_joint_limits_from limits i q =
     Inr (\<forall>k < length q. fst (limits ! (i + k)) \<le> q ! k \<and> q ! k \<le> snd (limits ! (i + k)))"
proof (induction q arbitrary: i)
  case Nil
  then show ?case by simp
next
  case (Cons a q)
  have i: "i < length limits" using Cons.prems by simp
  have r: "check_joint_limits_from limits (i + 1) q =
     Inr (\<forall>k < length q. fst (limits ! (i + 1 + k)) \<le> q ! k \<and> q ! k \<le> snd (limits ! (i + 1 + k)))"
    using Cons.prems by (intro Cons.IH) simp
  have split: "(\<forall>k < length (a # q). fst (limits ! (i + k)) \<le> (a # q) ! k \<and> (a # q) ! k \<le> snd (limits ! (i + k)))
     = ((fst (limits ! i) \<le> a \<and> a \<le> snd (limits ! i)) \<and>
        (\<forall>k < length q. fst (limits ! (i + 1 + k)) \<le> q ! k \<and> q ! k \<le> snd (limits ! (i + 1 + k))))"
    by (auto simp: less_Suc_eq_0_disj)
  show ?case
    unfolding split using i r
    by (auto simp: case_prod_beta not_less)
qed

lemma get_end_effector_transform_limits:
  "get_end_effector_transform (f\<lparr>joint_limits := L\<rparr>) q = get_end_effector_transform f q"
  by (simp add: get_end_effector_transform_def forward_kinematics_def)

lemma normalize_joint_angles_limits:
  "normalize_joint_angles (f\<lparr>joint_limits := L\<rparr>) q = normalize_joint_angles f q"
  by (simp add: normalize_joint_angles_def)

lemma verify_limits:
  "verify (self\<lparr>fk := (fk self)\<lparr>joint_limits := L\<rparr>\<rparr>) q T a b = verify self q T a b"
  by (simp add: verify_def get_end_effector_transform_limits)

lemma jacobian_column_limits:
  "jacobian_column (self\<lparr>fk := (fk self)\<lparr>joint_limits := L\<rparr>\<rparr>) q d p0 R0 i = jacobian_column self q d p0 R0 i"
  by (simp add: jacobian_column_def get_end_effector_transform_limits)

lemma jacobian_columns_limits:
  "jacobian_columns (self\<lparr>fk := (fk self)\<lparr>joint_limits := L\<rparr>\<rparr>) q d p0 R0 is = jacobian_columns self q d p0 R0 is"
  by (induction "is") (simp_all add: jacobian_column_limits cong: sum.case_cong)

lemma numerical_jacobian_limits:
  "numerical_jacobian (self\<lparr>fk := (fk self)\<lparr>joint_limits := L\<rparr>\<rparr>) q d = numerical_jacobian self q d"
  by (simp add: numerical_jacobian_def get_end_effector_transform_limits jacobian_columns_limits cong: sum.case_cong)

lemma orientation_error_limits:
  "orientation_error (self\<lparr>fk := (fk self)\<lparr>joint_limits := L\<rparr>\<rparr>) Rd Rc = orientation_error self Rd Rc"
  by (simp add: orientation_error_def)

lemma solve_iterations_limits:
  "solve_iterations (self\<lparr>fk := (fk self)\<lparr>joint_limits := L\<rparr>\<rparr>) T n q = solve_iterations self T n q"
proof (induction n arbitrary: q)
  case 0
  show ?case by simp
next
  case (Suc n)
  show ?case
    by (simp only: solve_iterations.simps verify_limits numerical_jacobian_limits
        orientation_error_limits Suc.IH)
      (simp add: get_end_effector_transform_limits cong: sum.case_cong)
qed

lemma is_duplicate_limits:
  "is_duplicate (self\<lparr>fk := (fk self)\<lparr>joint_limits := L\<rparr>\<rparr>) r e = is_duplicate self r e"
  by (simp add: is_duplicate_def normalize_joint_angles_limits)

lemma solve_seeds_limits:
  "solve_seeds (self\<lparr>fk := (fk self)\<lparr>joint_limits := L\<rparr>\<rparr>) T seeds sols = solve_seeds self T seeds sols"
proof (induction seeds arbitrary: sols)
  case Nil
  show ?case by simp
next
  case (Cons s seeds)
  have d: "is_duplicate (self\<lparr>fk := (fk self)\<lparr>joint_limits := L\<rparr>\<rparr>) = is_duplicate self"
    by (intro ext) (rule is_duplicate_limits)
  have s: "solve_single (self\<lparr>fk := (fk self)\<lparr>joint_limits := L\<rparr>\<rparr>) T s = solve_single self T s"
    by (simp add: solve_single_def solve_iterations_limits)
  show ?case
    by (simp only: solve_seeds.simps s d Cons.IH) (simp add: normalize_joint_angles_limits cong: sum.case_cong option.case_cong)
qed

lemma solve_ik_limits:
  "solve_ik (self\<lparr>fk := (fk self)\<lparr>joint_limits := L\<rparr>\<rparr>) sample T = solve_ik self sample T"
  by (simp add: solve_ik_def solve_seeds_limits)

section \<open>The chain\<close>

lemma rotx_spec: "rotx t = spec_rotation X_axis t"
  by (simp add: rotx_def spec_rotation_def unit_vector_def Let_def)

lemma roty_spec: "roty t = spec_rotation Y_axis t"
  by (simp add: roty_def spec_rotation_def unit_vector_def Let_def)

lemma rotz_spec: "rotz t = spec_rotation Z_axis t"
  by (simp add: rotz_def spec_rotation_def unit_vector_def Let_def)

lemma create_transform_spec: "create_transform xyz rpy = spec_fixed_origin xyz rpy"
proof -
  obtain x y z where xyz: "xyz = (x, y, z)" by (cases xyz) auto
  obtain r p yw where rpy: "rpy = (r, p, yw)" by (cases rpy) auto
  show ?thesis
    unfolding xyz rpy create_transform_def spec_fixed_origin_def spec_translation_def
      rotx_spec [symmetric] roty_spec [symmetric] rotz_spec [symmetric]
    by (simp add: rotx_def roty_def rotz_def Let_def mm_4_4 rotation_part_def eye_4)
qed

lemma joint_transform_spec:
  "joint_transform xyz rpy t ''z'' = spec_local_transform \<lparr>origin_xyz = xyz, origin_rpy = rpy, joint_axis = Z_axis\<rparr> t"
  "joint_transform xyz rpy t ''y'' = spec_local_transform \<lparr>origin_xyz = xyz, origin_rpy = rpy, joint_axis = Y_axis\<rparr> t"
  "joint_transform xyz rpy t ''x'' = spec_local_transform \<lparr>origin_xyz = xyz, origin_rpy = rpy, joint_axis = X_axis\<rparr> t"
  by (simp_all add: joint_transform_def spec_local_transform_def create_transform_spec rotx_spec roty_spec rotz_spec)

lemma list_of_length_6: "length q = 6 \<Longrightarrow> q = [q ! 0, q ! 1, q ! 2, q ! 3, q ! 4, q ! 5]"
  by (auto simp: numeral_eq_Suc length_Suc_conv)


section \<open>Normalisation, the home position and the chain: the statements\<close>




lemma forward_kinematics_home:
  "forward_kinematics UR3_URDF_ForwardKinematics [0, 0, 0, 0, 0, 0] = Inr \<lparr>
     base = [[1, 0, 0, 0], [0, 1, 0, 0], [0, 0, 1, 0], [0, 0, 0, 1]],
     shoulder = [[1, 0, 0, 0], [0, 1, 0, 0], [0, 0, 1, 0.1519], [0, 0, 0, 1]],
     upper_arm = [[0, 0, 1, 0], [0, 1, 0, 0.1198], [- 1, 0, 0, 0.1519], [0, 0, 0, 1]],
     forearm = [[0, 0, 1, 0.24365], [0, 1, 0, 0.0273], [- 1, 0, 0, 0.1519], [0, 0, 0, 1]],
     wrist_1 = [[- 1, 0, 0, 0.4569], [0, 1, 0, 0.0273], [0, 0, - 1, 0.1519], [0, 0, 0, 1]],
     wrist_2 = [[- 1, 0, 0, 0.4569], [0, 1, 0, 0.11235], [0, 0, - 1, 0.1519], [0, 0, 0, 1]],
     wrist_3 = [[- 1, 0, 0, 0.4569], [0, 1, 0, 0.11235], [0, 0, - 1, 0.06655], [0, 0, 0, 1]] \<rparr>"
  by (simp add: forward_kinematics_def UR3_URDF_ForwardKinematics_def joint_transform_def
      create_transform_def rotx_def roty_def rotz_def mm_def col_def ncols_def eye_4
      rotation_part_def Let_def)

lemma forward_kinematics_ignores_d6:
  "forward_kinematics (self\<lparr>d6 := v, wrist_3_length := w\<rparr>) q = forward_kinematics self q"
  by (simp add: forward_kinematics_def)

text \<open>
  C5: at the home position the seven link poses are the constant matrices below; the
  translation of the end effector is the sum of the upper arm and forearm lengths in
  \<open>x\<close>, \<open>d4\<close> in \<open>y\<close> and \<open>d1 - d5\<close> in \<open>z\<close>, that is 0.4569, 0.11235 and 0.06655;
  and no pose depends on \<open>d6\<close> or on the wrist-3 length derived from it.
\<close>

theorem home_position:
  "forward_kinematics UR3_URDF_ForwardKinematics [0, 0, 0, 0, 0, 0] = Inr \<lparr>
     base = [[1, 0, 0, 0], [0, 1, 0, 0], [0, 0, 1, 0], [0, 0, 0, 1]],
     shoulder = [[1, 0, 0, 0], [0, 1, 0, 0], [0, 0, 1, 0.1519], [0, 0, 0, 1]],
     upper_arm = [[0, 0, 1, 0], [0, 1, 0, 0.1198], [- 1, 0, 0, 0.1519], [0, 0, 0, 1]],
     forearm = [[0, 0, 1, 0.24365], [0, 1, 0, 0.0273], [- 1, 0, 0, 0.1519], [0, 0, 0, 1]],
     wrist_1 = [[- 1, 0, 0, 0.4569], [0, 1, 0, 0.0273], [0, 0, - 1, 0.1519], [0, 0, 0, 1]],
     wrist_2 = [[- 1, 0, 0, 0.4569], [0, 1, 0, 0.11235], [0, 0, - 1, 0.1519], [0, 0, 0, 1]],
     wrist_3 = [[- 1, 0, 0, 0.4569], [0, 1, 0, 0.11235], [0, 0, - 1, 0.06655], [0, 0, 0, 1]] \<rparr>
   \<and> map_sum id translation_part (get_end_effector_transform UR3_URDF_ForwardKinematics [0, 0, 0, 0, 0, 0])
       = Inr [upper_arm_length UR3_URDF_ForwardKinematics + forearm_length UR3_URDF_ForwardKinematics,
              d4 UR3_URDF_ForwardKinematics,
              d1 UR3_URDF_ForwardKinematics - d5 UR3_URDF_ForwardKinematics]
   \<and> map_sum id translation_part (get_end_effector_transform UR3_URDF_ForwardKinematics [0, 0, 0, 0, 0, 0])
       = Inr [0.4569, 0.11235, 0.06655]
   \<and> (\<forall>v w. forward_kinematics (UR3_URDF_ForwardKinematics\<lparr>d6 := v, wrist_3_length := w\<rparr>) [0, 0, 0, 0, 0, 0]
            = forward_kinematics UR3_URDF_ForwardKinematics [0, 0, 0, 0, 0, 0])"
proof -
  have t: "map_sum id translation_part (get_end_effector_transform UR3_URDF_ForwardKinematics [0, 0, 0, 0, 0, 0])
       = Inr [0.4569, 0.11235, 0.06655]"
    by (simp add: get_end_effector_transform_def forward_kinematics_home translation_part_def)
  have g: "[upper_arm_length UR3_URDF_ForwardKinematics + forearm_length UR3_URDF_ForwardKinematics,
              d4 UR3_URDF_ForwardKinematics,
              d1 UR3_URDF_ForwardKinematics - d5 UR3_URDF_ForwardKinematics] = [0.4569, 0.11235, 0.06655]"
    by (simp add: UR3_URDF_ForwardKinematics_def Let_def)
  show ?thesis
    using forward_kinematics_home t g forward_kinematics_ignores_d6 by simp
qed

text \<open>
  C1: for six joint angles, \<^verbatim>\<open>forward_kinematics\<close> returns the seven poses that the
  chain of the specification gives: the identity for the base, and for each further link
  the pose of the link before it times the fixed origin of its joint times the
  right-handed rotation about the joint's axis by the joint's angle, with the axes and
  offsets of \<open>spec_chain\<close>.
\<close>

theorem forward_kinematics_chain:
  assumes "length q = 6"
  shows "\<exists>poses. forward_kinematics self q = Inr poses \<and>
           [base poses, shoulder poses, upper_arm poses, forearm poses,
            wrist_1 poses, wrist_2 poses, wrist_3 poses]
           = spec_cumulative (eye 4) (zip (spec_chain self) q)"
proof -
  have q: "q = [q ! 0, q ! 1, q ! 2, q ! 3, q ! 4, q ! 5]"
    using assms by (rule list_of_length_6)
  have z: "zip (spec_chain self) q =
     [(spec_chain self ! 0, q ! 0), (spec_chain self ! 1, q ! 1), (spec_chain self ! 2, q ! 2),
      (spec_chain self ! 3, q ! 3), (spec_chain self ! 4, q ! 4), (spec_chain self ! 5, q ! 5)]"
    by (subst q) (simp add: spec_chain_def)
  show ?thesis
    unfolding z
    by (simp add: forward_kinematics_def assms Let_def joint_transform_spec spec_chain_def)
qed

theorem forward_kinematics_chain_witness:
  "length [0, 0, 0, 0, 0, 0 :: real] = 6 \<and>
   (\<exists>poses. forward_kinematics UR3_URDF_ForwardKinematics [0, 0, 0, 0, 0, 0] = Inr poses \<and>
           [base poses, shoulder poses, upper_arm poses, forearm poses,
            wrist_1 poses, wrist_2 poses, wrist_3 poses]
           = spec_cumulative (eye 4) (zip (spec_chain UR3_URDF_ForwardKinematics) [0, 0, 0, 0, 0, 0]))"
  using forward_kinematics_chain [of "[0, 0, 0, 0, 0, 0]" UR3_URDF_ForwardKinematics] by simp

section \<open>Acceptance of a local solve\<close>

lemma solve_iterations_first_converged:
  "solve_iterations self T n q0 =
     (case spec_first_converged self T n q0 of
        Inl e \<Rightarrow> Inl e
      | Inr None \<Rightarrow> Inr None
      | Inr (Some q) \<Rightarrow> Inr (if verify self q T 0.0001 0.005 then Some q else None))"
proof (induction n arbitrary: q0)
  case 0
  show ?case by simp
next
  case (Suc n)
  show ?case
    by (simp add: solve_iterations_step Suc.IH split: sum.splits)
qed

lemma spec_first_converged_Some:
  "spec_first_converged self T n q0 = Inr (Some q) \<Longrightarrow> converged self T q"
proof (induction n arbitrary: q0)
  case 0
  then show ?case by simp
next
  case (Suc n)
  then show ?case by (auto split: sum.splits if_splits)
qed

lemma converged_iff:
  "converged self T q =
     (\<exists>T_q. get_end_effector_transform (fk self) q = Inr T_q \<and>
        norm2 (vsub (translation_part T) (translation_part T_q)) < tol self \<and>
        norm2 (orientation_error self (rotation_part T) (rotation_part T_q)) < tol self * 5)"
  by (auto simp: converged_def pose_errors_def split: sum.splits)

lemma verify_iff:
  "verify self q T a b =
     (\<exists>T_q. get_end_effector_transform (fk self) q = Inr T_q \<and>
        norm2 (vsub (translation_part T_q) (translation_part T)) < a \<and>
        norm_fro (msub (rotation_part T_q) (rotation_part T)) < b)"
  by (auto simp: verify_def Let_def split: sum.splits)

lemma get_end_effector_transform_home:
  "get_end_effector_transform UR3_URDF_ForwardKinematics [0, 0, 0, 0, 0, 0] =
     Inr [[- 1, 0, 0, 0.4569], [0, 1, 0, 0.11235], [0, 0, - 1, 0.06655], [0, 0, 0, 1]]"
  by (simp add: get_end_effector_transform_def forward_kinematics_home)

lemma rotation_angle_home:
  "rotation_angle (mm [[- 1, 0, 0], [0, 1, 0], [0, 0, - 1]] (mT [[- 1, 0, 0], [0, 1, 0], [0, 0, - 1]])) = 0"
  by (simp add: rotation_angle_def mm_def mT_def col_def ncols_def trace3_def clip_def)

lemma pose_errors_home:
  "pose_errors UR3_InverseKinematics
     [[- 1, 0, 0, 0.4569], [0, 1, 0, 0.11235], [0, 0, - 1, 0.06655], [0, 0, 0, 1]] [0, 0, 0, 0, 0, 0]
   = Inr ([0, 0, 0], [0, 0, 0])"
  by (simp add: pose_errors_def UR3_InverseKinematics_def get_end_effector_transform_home
      translation_part_def rotation_part_def vsub_def orientation_error_def Let_def rotation_angle_home)

lemma converged_home:
  "converged UR3_InverseKinematics
     [[- 1, 0, 0, 0.4569], [0, 1, 0, 0.11235], [0, 0, - 1, 0.06655], [0, 0, 0, 1]] [0, 0, 0, 0, 0, 0]"
proof -
  have t: "tol UR3_InverseKinematics = 0.000001" by (simp add: UR3_InverseKinematics_def)
  show ?thesis by (simp only: converged_def pose_errors_home) (simp add: norm2_def t)
qed

lemma verify_home:
  "verify UR3_InverseKinematics [0, 0, 0, 0, 0, 0]
     [[- 1, 0, 0, 0.4569], [0, 1, 0, 0.11235], [0, 0, - 1, 0.06655], [0, 0, 0, 1]] 0.0001 0.005"
  by (simp add: verify_def UR3_InverseKinematics_def get_end_effector_transform_home
      translation_part_def rotation_part_def vsub_def msub_def norm2_def norm_fro_def Let_def)

lemma solve_single_home:
  "solve_single UR3_InverseKinematics
     [[- 1, 0, 0, 0.4569], [0, 1, 0, 0.11235], [0, 0, - 1, 0.06655], [0, 0, 0, 1]] [0, 0, 0, 0, 0, 0]
   = Inr (Some [0, 0, 0, 0, 0, 0])"
proof -
  have m: "max_iter UR3_InverseKinematics = Suc 199" by (simp add: UR3_InverseKinematics_def)
  show ?thesis
    unfolding solve_single_def m
    by (simp only: solve_iterations_step pose_errors_home converged_home verify_home) simp
qed

text \<open>
  C2: with the constants of the constructor, \<^verbatim>\<open>_solve_single\<close> returns what the first
  iterate that passes the convergence test within 200 iterations decides: no result when
  there is none, that iterate when \<^verbatim>\<open>_verify\<close> accepts it, and no result when
  \<^verbatim>\<open>_verify\<close> rejects it. So a returned iterate has a position error norm below
  \<open>10\<^sup>-\<^sup>6\<close> and an orientation error norm below five times that, and a fresh forward
  kinematics of it is within \<open>10\<^sup>-\<^sup>4\<close> of the target in position and within
  \<open>5 \<cdot> 10\<^sup>-\<^sup>3\<close> in the Frobenius norm of the rotation difference.
\<close>

theorem solve_single_verified:
  "solve_single UR3_InverseKinematics T q0 =
     (case spec_first_converged UR3_InverseKinematics T 200 q0 of
        Inl e \<Rightarrow> Inl e
      | Inr None \<Rightarrow> Inr None
      | Inr (Some q) \<Rightarrow> Inr (if verify UR3_InverseKinematics q T 0.0001 0.005 then Some q else None))
   \<and> (\<forall>q. solve_single UR3_InverseKinematics T q0 = Inr (Some q) \<longrightarrow>
          spec_first_converged UR3_InverseKinematics T 200 q0 = Inr (Some q) \<and>
          (\<exists>T_q. get_end_effector_transform UR3_URDF_ForwardKinematics q = Inr T_q \<and>
             norm2 (vsub (translation_part T) (translation_part T_q)) < 0.000001 \<and>
             norm2 (orientation_error UR3_InverseKinematics (rotation_part T) (rotation_part T_q))
               < 5 * 0.000001 \<and>
             norm2 (vsub (translation_part T_q) (translation_part T)) < 0.0001 \<and>
             norm_fro (msub (rotation_part T_q) (rotation_part T)) < 0.005))
   \<and> (\<forall>q. spec_first_converged UR3_InverseKinematics T 200 q0 = Inr (Some q) \<longrightarrow>
          (\<forall>T_q. get_end_effector_transform UR3_URDF_ForwardKinematics q = Inr T_q \<longrightarrow>
             \<not> (norm2 (vsub (translation_part T_q) (translation_part T)) < 0.0001 \<and>
                norm_fro (msub (rotation_part T_q) (rotation_part T)) < 0.005)) \<longrightarrow>
          solve_single UR3_InverseKinematics T q0 = Inr None)"
proof -
  let ?S = UR3_InverseKinematics
  have c: "fk ?S = UR3_URDF_ForwardKinematics" "tol ?S = 0.000001" "max_iter ?S = 200"
    by (simp_all add: UR3_InverseKinematics_def)
  have main: "solve_single ?S T q0 =
     (case spec_first_converged ?S T 200 q0 of
        Inl e \<Rightarrow> Inl e
      | Inr None \<Rightarrow> Inr None
      | Inr (Some q) \<Rightarrow> Inr (if verify ?S q T 0.0001 0.005 then Some q else None))"
    unfolding solve_single_def c by (rule solve_iterations_first_converged)
  have a: "spec_first_converged ?S T 200 q0 = Inr (Some q) \<and>
          (\<exists>T_q. get_end_effector_transform UR3_URDF_ForwardKinematics q = Inr T_q \<and>
             norm2 (vsub (translation_part T) (translation_part T_q)) < 0.000001 \<and>
             norm2 (orientation_error ?S (rotation_part T) (rotation_part T_q)) < 5 * 0.000001 \<and>
             norm2 (vsub (translation_part T_q) (translation_part T)) < 0.0001 \<and>
             norm_fro (msub (rotation_part T_q) (rotation_part T)) < 0.005)"
    if s: "solve_single ?S T q0 = Inr (Some q)" for q
  proof -
    from s main have f: "spec_first_converged ?S T 200 q0 = Inr (Some q)"
      and v: "verify ?S q T 0.0001 0.005"
      by (auto split: sum.splits option.splits if_splits)
    from spec_first_converged_Some [OF f] have cv: "converged ?S T q" .
    from cv v f show ?thesis
      unfolding converged_iff verify_iff c by auto
  qed
  have b: "solve_single ?S T q0 = Inr None"
    if f: "spec_first_converged ?S T 200 q0 = Inr (Some q)"
      and nv: "\<forall>T_q. get_end_effector_transform UR3_URDF_ForwardKinematics q = Inr T_q \<longrightarrow>
             \<not> (norm2 (vsub (translation_part T_q) (translation_part T)) < 0.0001 \<and>
                norm_fro (msub (rotation_part T_q) (rotation_part T)) < 0.005)" for q
  proof -
    have "\<not> verify ?S q T 0.0001 0.005"
      unfolding verify_iff c using nv by blast
    then show ?thesis using main f by simp
  qed
  show ?thesis using main a b by blast
qed

theorem solve_single_verified_witness:
  "solve_single UR3_InverseKinematics
     [[- 1, 0, 0, 0.4569], [0, 1, 0, 0.11235], [0, 0, - 1, 0.06655], [0, 0, 0, 1]] [0, 0, 0, 0, 0, 0]
     = Inr (Some [0, 0, 0, 0, 0, 0]) \<and>
   spec_first_converged UR3_InverseKinematics
     [[- 1, 0, 0, 0.4569], [0, 1, 0, 0.11235], [0, 0, - 1, 0.06655], [0, 0, 0, 1]] 200 [0, 0, 0, 0, 0, 0]
     = Inr (Some [0, 0, 0, 0, 0, 0]) \<and>
   (\<exists>T_q. get_end_effector_transform UR3_URDF_ForwardKinematics [0, 0, 0, 0, 0, 0] = Inr T_q \<and>
      norm2 (vsub (translation_part [[- 1, 0, 0, 0.4569], [0, 1, 0, 0.11235], [0, 0, - 1, 0.06655], [0, 0, 0, 1]])
              (translation_part T_q)) < 0.000001 \<and>
      norm2 (orientation_error UR3_InverseKinematics
              (rotation_part [[- 1, 0, 0, 0.4569], [0, 1, 0, 0.11235], [0, 0, - 1, 0.06655], [0, 0, 0, 1]])
              (rotation_part T_q)) < 5 * 0.000001 \<and>
      norm2 (vsub (translation_part T_q)
              (translation_part [[- 1, 0, 0, 0.4569], [0, 1, 0, 0.11235], [0, 0, - 1, 0.06655], [0, 0, 0, 1]])) < 0.0001 \<and>
      norm_fro (msub (rotation_part T_q)
              (rotation_part [[- 1, 0, 0, 0.4569], [0, 1, 0, 0.11235], [0, 0, - 1, 0.06655], [0, 0, 0, 1]])) < 0.005)"
  using solve_single_verified
    [of "[[- 1, 0, 0, 0.4569], [0, 1, 0, 0.11235], [0, 0, - 1, 0.06655], [0, 0, 0, 1]]" "[0, 0, 0, 0, 0, 0]"]
    solve_single_home
  by blast

section \<open>The damped linear solve\<close>

lemma dls_step_errors:
  "dls_step self T q = Inl e \<Longrightarrow> e = IndexError \<or> e = ValueError"
proof -
  assume s: "dls_step self T q = Inl e"
  show ?thesis
  proof (cases "pose_errors self T q")
    case (Inl e')
    then have "get_end_effector_transform (fk self) q = Inl e'"
      by (auto simp: pose_errors_def split: sum.splits)
    then have "e' = IndexError"
      using get_end_effector_transform_shape [of q "fk self"] get_end_effector_transform_short [of q "fk self"]
      by (cases "length q < 6") auto
    then show ?thesis using s Inl by (simp add: dls_step_def)
  next
    case (Inr err)
    obtain dp dw where err: "err = (dp, dw)" by (cases err)
    have q: "6 \<le> length q"
    proof (rule ccontr)
      assume "\<not> 6 \<le> length q"
      then have "get_end_effector_transform (fk self) q = Inl IndexError"
        by (simp add: get_end_effector_transform_short)
      then show False using Inr by (simp add: pose_errors_def)
    qed
    obtain J where J: "numerical_jacobian self q 0.000001 = Inr J" and m: "is_mat 6 6 J"
      using numerical_jacobian_shape [OF q] by blast
    let ?A = "madd (mm J (mT J)) (msmul (0.01 ^ 2) (eye 6))"
    have A: "is_mat 6 6 ?A" using m by (rule damped_is_mat) simp
    then have lA: "length ?A = 6" by (rule is_matD)
    show ?thesis
    proof (cases "length (dp @ dw) = 6")
      case True
      obtain y where y: "linalg_solve ?A (dp @ dw) = Inr y"
        using damped_solve [OF m _ True, of "0.01 ^ 2"] by auto
      show ?thesis using s Inr err J y by (simp add: dls_step_def split: if_splits)
    next
      case False
      then have "linalg_solve ?A (dp @ dw) = Inl ValueError"
        using A lA by (simp add: linalg_solve_def)
      then show ?thesis using s Inr err J by (simp add: dls_step_def)
    qed
  qed
qed

lemma pose_errors_errors: "pose_errors self T q = Inl e \<Longrightarrow> e = IndexError"
proof -
  assume "pose_errors self T q = Inl e"
  then have "get_end_effector_transform (fk self) q = Inl e"
    by (auto simp: pose_errors_def split: sum.splits)
  then show ?thesis
    using get_end_effector_transform_shape [of q "fk self"] get_end_effector_transform_short [of q "fk self"]
    by (cases "length q < 6") auto
qed

lemma solve_iterations_errors:
  "solve_iterations self T n q = Inl e \<Longrightarrow> e = IndexError \<or> e = ValueError"
proof (induction n arbitrary: q)
  case 0
  then show ?case by simp
next
  case (Suc n)
  then show ?case
    by (auto simp: solve_iterations_step split: sum.splits if_splits
        dest: pose_errors_errors dls_step_errors)
qed

text \<open>
  C6: for a 6 by 6 matrix \<open>J\<close> and an error vector of six entries, the matrix
  \<open>J J\<^sup>T + 0.01\<^sup>2 I\<close> is symmetric and positive definite, only the zero vector is mapped
  to zero by it, the linear solve returns the solution of the system, and the update has
  six entries; so an iteration from six joint angles towards a 4 by 4 target yields the
  next iterate, the local solve returns, and for no arguments at all does the local
  solve end in the solver's LinAlgError.
\<close>

theorem damped_least_squares_defined:
  assumes J: "is_mat 6 6 J" and e: "length e = 6" and T: "is_mat 4 4 T" and q: "length q = 6"
  shows "mT (madd (mm J (mT J)) (msmul (0.01 ^ 2) (eye 6))) = madd (mm J (mT J)) (msmul (0.01 ^ 2) (eye 6))
    \<and> (\<forall>y. length y = 6 \<and> y \<noteq> replicate 6 0 \<longrightarrow>
           0 < dot y (mv (madd (mm J (mT J)) (msmul (0.01 ^ 2) (eye 6))) y))
    \<and> (\<forall>y. length y = 6 \<and> mv (madd (mm J (mT J)) (msmul (0.01 ^ 2) (eye 6))) y = replicate 6 0 \<longrightarrow>
           y = replicate 6 0)
    \<and> (\<exists>x. linalg_solve (madd (mm J (mT J)) (msmul (0.01 ^ 2) (eye 6))) e = Inr x \<and> length x = 6 \<and>
           mv (madd (mm J (mT J)) (msmul (0.01 ^ 2) (eye 6))) x = e \<and> length (mv (mT J) x) = 6)
    \<and> (\<exists>q'. dls_step self T q = Inr q' \<and> length q' = 6)
    \<and> (\<exists>r. solve_single self T q = Inr r)
    \<and> (\<forall>T' q'. solve_single self T' q' \<noteq> Inl LinAlgError)"
proof -
  let ?A = "madd (mm J (mT J)) (msmul (0.01 ^ 2) (eye 6))"
  have n: "(0::nat) < 6" by simp
  have c: "(0::real) < 0.01 ^ 2" by simp
  have sym: "mT ?A = ?A" using J n by (rule damped_symmetric)
  have pd: "0 < dot y (mv ?A y)" if "length y = 6" "y \<noteq> replicate 6 0" for y
    using J n that(1) c that(2) by (rule damped_positive_definite)
  have inj: "y = replicate 6 0" if ly: "length y = 6" and z: "mv ?A y = replicate 6 0" for y
  proof (rule ccontr)
    assume "y \<noteq> replicate 6 0"
    then have "0 < dot y (mv ?A y)" using ly by (intro pd)
    then show False using z by simp
  qed
  obtain x where x: "linalg_solve ?A e = Inr x" "length x = 6" "mv ?A x = e"
    using damped_solve [OF J n e c] by blast
  have "is_mat 6 6 (mT J)" using J n by (rule mT_is_mat)
  then have "length (mv (mT J) x) = 6" by (simp add: is_matD)
  then have sol: "\<exists>x. linalg_solve ?A e = Inr x \<and> length x = 6 \<and> mv ?A x = e \<and> length (mv (mT J) x) = 6"
    using x by blast
  have step: "\<exists>q'. dls_step self T q = Inr q' \<and> length q' = 6"
    using q T by (rule dls_step_shape)
  have tot: "\<exists>r. solve_single self T q = Inr r"
    unfolding solve_single_def using solve_iterations_total [OF T q, of self "max_iter self"] by blast
  have never: "solve_single self T' q' \<noteq> Inl LinAlgError" for T' q'
    unfolding solve_single_def using solve_iterations_errors [of self T' "max_iter self" q' LinAlgError]
    by auto
  show ?thesis using sym pd inj sol step tot never by blast
qed

theorem damped_least_squares_defined_witness:
  "is_mat 6 6 (eye 6) \<and> length (replicate 6 (0::real)) = 6 \<and> is_mat 4 4 (eye 4) \<and>
   length [0, 0, 0, 0, 0, 0 :: real] = 6 \<and>
   (\<exists>x. linalg_solve (madd (mm (eye 6) (mT (eye 6))) (msmul (0.01 ^ 2) (eye 6))) (replicate 6 0) = Inr x \<and>
        length x = 6 \<and>
        mv (madd (mm (eye 6) (mT (eye 6))) (msmul (0.01 ^ 2) (eye 6))) x = replicate 6 0 \<and>
        length (mv (mT (eye 6)) x) = 6) \<and>
   (\<exists>q'. dls_step UR3_InverseKinematics (eye 4) [0, 0, 0, 0, 0, 0] = Inr q' \<and> length q' = 6) \<and>
   (\<exists>r. solve_single UR3_InverseKinematics (eye 4) [0, 0, 0, 0, 0, 0] = Inr r)"
proof -
  have J: "is_mat 6 6 (eye 6)" by (rule eye_is_mat)
  have e: "length (replicate 6 (0::real)) = 6" by simp
  have T: "is_mat 4 4 (eye 4)" by (rule eye_is_mat)
  have q: "length [0, 0, 0, 0, 0, 0 :: real] = 6" by simp
  show ?thesis
    using damped_least_squares_defined [OF J e T q, of UR3_InverseKinematics] J e T q by blast
qed

section \<open>The solutions of \<^verbatim>\<open>solve_ik\<close>\<close>

lemma length_uniform: "length (fst (uniform sample pos lo hi n)) = n"
  by (simp add: uniform_def)

lemma random_seeds_shape:
  "length (random_seeds sample pos n) = n \<and> (\<forall>s \<in> set (random_seeds sample pos n). length s = 6)"
  by (induction n arbitrary: pos) (auto simp: uniform_def)

lemma generate_seeds_shape:
  "length (generate_seeds sample) = 32 \<and> (\<forall>s \<in> set (generate_seeds sample). length s = 6)"
  using random_seeds_shape [of sample 0 24] by (auto simp: generate_seeds_def configs_def)

lemma solve_ik_spec:
  assumes T: "is_mat 4 4 T"
  shows "solve_ik self sample T = Inr (spec_first_kept [] (spec_candidates self T (generate_seeds sample)))"
  unfolding solve_ik_def
  using T generate_seeds_shape [of sample]
  by (intro solve_seeds_spec) (auto simp: good_solutions_def)

lemma within_threshold_near:
  "within_threshold [0.01, 0, 0, 0, 0, 0] [0, 0, 0, 0, 0, 0]"
  by (simp add: within_threshold_def numeral_eq_Suc less_Suc_eq)

lemma within_threshold_far:
  "\<not> within_threshold [1, 0, 0, 0, 0, 0] [0, 0, 0, 0, 0, 0]"
  by (auto simp: within_threshold_def intro: exI [of _ 0])

lemma vsub_self: "vsub p p = replicate (length p) 0"
  by (induction p) (simp_all add: vsub_def)

lemma norm2_vsub_self: "norm2 (vsub p p) = 0"
  by (simp add: norm2_def vsub_self)

lemma msub_self_rows: "map (\<lambda>r. dot r r) (msub R R) = replicate (length R) 0"
  by (induction R) (simp_all add: msub_def vsub_self)

lemma sum_list_zeros: "sum_list (replicate n (0::real)) = 0"
  by (induction n) simp_all

lemma norm_fro_msub_self: "norm_fro (msub R R) = 0"
  by (simp add: norm_fro_def msub_self_rows sum_list_zeros)

lemma solve_single_at_target:
  assumes g: "get_end_effector_transform (fk self) q = Inr T"
    and o: "mm (rotation_part T) (mT (rotation_part T)) = eye 3"
    and e: "0 < epsilon self" and t: "0 < tol self" and m: "max_iter self = Suc n"
  shows "solve_single self T q = Inr (Some q)"
proof -
  have oe: "orientation_error self (rotation_part T) (rotation_part T) = [0, 0, 0]"
    using e by (simp add: orientation_error_def o rotation_angle_eye)
  have pe: "pose_errors self T q = Inr (vsub (translation_part T) (translation_part T), [0, 0, 0])"
    by (simp add: pose_errors_def g oe)
  have c: "converged self T q"
  proof -
    have "norm2 [0, 0, 0] = 0" by (simp add: norm2_def)
    then show ?thesis using t by (simp add: converged_def pe norm2_vsub_self)
  qed
  have v: "verify self q T 0.0001 0.005"
    by (simp add: verify_def g Let_def norm2_vsub_self norm_fro_msub_self)
  show ?thesis
    unfolding solve_single_def m using v by (simp add: solve_iterations_step pe c)
qed

lemma spec_candidates_mem:
  "seed \<in> set seeds \<Longrightarrow> solve_single self T seed = Inr (Some q) \<Longrightarrow>
   normalize_joint_angles (fk self) q \<in> set (spec_candidates self T seeds)"
  by (induction seeds) (auto split: sum.splits option.splits)

lemma spec_candidates_origin:
  "c \<in> set (spec_candidates self T seeds) \<Longrightarrow>
   \<exists>seed \<in> set seeds. \<exists>q. solve_single self T seed = Inr (Some q) \<and> c = normalize_joint_angles (fk self) q"
  by (induction seeds) (auto split: sum.splits option.splits)

lemma within_threshold_refl: "within_threshold c c"
  by (simp add: within_threshold_def)

lemma spec_first_kept_mono: "set kept \<subseteq> set (spec_first_kept kept cs)"
  using spec_first_kept_prefix [of kept cs] by auto

lemma spec_first_kept_covers:
  "c \<in> set cs \<Longrightarrow> \<exists>e \<in> set (spec_first_kept kept cs). within_threshold c e"
proof (induction cs arbitrary: kept)
  case Nil
  then show ?case by simp
next
  case (Cons d cs)
  let ?k = "if \<exists>e \<in> set kept. within_threshold d e then kept else kept @ [d]"
  show ?case
  proof (cases "c = d")
    case True
    have "\<exists>e \<in> set ?k. within_threshold c e"
      using True within_threshold_refl [of d] by auto
    moreover have "set ?k \<subseteq> set (spec_first_kept ?k cs)" by (rule spec_first_kept_mono)
    ultimately show ?thesis by (simp only: spec_first_kept.simps) blast
  next
    case False
    then have "c \<in> set cs" using Cons.prems by simp
    from Cons.IH [OF this, of ?k] show ?thesis by (simp only: spec_first_kept.simps)
  qed
qed

lemma normalize_zeros:
  "normalize_joint_angles f [0, 0, 0, 0, 0, 0] = [0, 0, 0, 0, 0, 0]"
  using normalize1_fixed [of 0] by (simp add: normalize_joint_angles_def)

lemma zeros_in_generate_seeds: "[0, 0, 0, 0, 0, 0] \<in> set (generate_seeds sample)"
  by (simp add: generate_seeds_def configs_def)

lemma rotation_part_home_orthogonal:
  "mm (rotation_part [[- 1, 0, 0, 0.4569], [0, 1, 0, 0.11235], [0, 0, - 1, 0.06655], [0, 0, 0, 1]])
      (mT (rotation_part [[- 1, 0, 0, 0.4569], [0, 1, 0, 0.11235], [0, 0, - 1, 0.06655], [0, 0, 0, 1]]))
   = eye 3"
  by (simp add: rotation_part_def mm_def mT_def col_def ncols_def eye_3)

lemma is_mat_home:
  "is_mat 4 4 [[- 1, 0, 0, 0.4569], [0, 1, 0, 0.11235], [0, 0, - 1, 0.06655], [0, 0, 0, 1]]"
  by (simp add: is_mat_def)

lemma solve_ik_home_covers:
  assumes s: "solve_ik UR3_InverseKinematics sample
      [[- 1, 0, 0, 0.4569], [0, 1, 0, 0.11235], [0, 0, - 1, 0.06655], [0, 0, 0, 1]] = Inr sols"
  shows "\<exists>e \<in> set sols. within_threshold [0, 0, 0, 0, 0, 0] e"
proof -
  let ?T = "[[- 1, 0, 0, 0.4569], [0, 1, 0, 0.11235], [0, 0, - 1, 0.06655], [0, 0, 0, 1]] :: mat"
  let ?S = UR3_InverseKinematics
  have "normalize_joint_angles (fk ?S) [0, 0, 0, 0, 0, 0] \<in> set (spec_candidates ?S ?T (generate_seeds sample))"
    using zeros_in_generate_seeds solve_single_home by (rule spec_candidates_mem)
  then have c: "[0, 0, 0, 0, 0, 0] \<in> set (spec_candidates ?S ?T (generate_seeds sample))"
    by (simp only: normalize_zeros)
  have "sols = spec_first_kept [] (spec_candidates ?S ?T (generate_seeds sample))"
    using s solve_ik_spec [OF is_mat_home, of ?S sample] by simp
  then show ?thesis using spec_first_kept_covers [OF c, of "[]"] by simp
qed


lemma get_end_effector_transform_turned:
  "get_end_effector_transform UR3_URDF_ForwardKinematics [2 * pi, 0, 0, 0, 0, 0] =
     Inr [[- 1, 0, 0, 0.4569], [0, 1, 0, 0.11235], [0, 0, - 1, 0.06655], [0, 0, 0, 1]]"
  by (simp add: get_end_effector_transform_def forward_kinematics_def UR3_URDF_ForwardKinematics_def
      joint_transform_def create_transform_def rotx_def roty_def rotz_def mm_def col_def ncols_def eye_4
      rotation_part_def Let_def)

lemma solve_single_turned:
  "solve_single UR3_InverseKinematics
     [[- 1, 0, 0, 0.4569], [0, 1, 0, 0.11235], [0, 0, - 1, 0.06655], [0, 0, 0, 1]] [2 * pi, 0, 0, 0, 0, 0]
   = Inr (Some [2 * pi, 0, 0, 0, 0, 0])"
proof (rule solve_single_at_target)
  show "get_end_effector_transform (fk UR3_InverseKinematics) [2 * pi, 0, 0, 0, 0, 0] =
     Inr [[- 1, 0, 0, 0.4569], [0, 1, 0, 0.11235], [0, 0, - 1, 0.06655], [0, 0, 0, 1]]"
    using get_end_effector_transform_turned by (simp add: UR3_InverseKinematics_def)
  show "mm (rotation_part [[- 1, 0, 0, 0.4569], [0, 1, 0, 0.11235], [0, 0, - 1, 0.06655], [0, 0, 0, 1]])
      (mT (rotation_part [[- 1, 0, 0, 0.4569], [0, 1, 0, 0.11235], [0, 0, - 1, 0.06655], [0, 0, 0, 1]]))
   = eye 3"
    by (rule rotation_part_home_orthogonal)
  show "0 < epsilon UR3_InverseKinematics" by (simp add: UR3_InverseKinematics_def)
  show "0 < tol UR3_InverseKinematics" by (simp add: UR3_InverseKinematics_def)
  show "max_iter UR3_InverseKinematics = Suc 199" by (simp add: UR3_InverseKinematics_def)
qed

lemma normalize_turned:
  "normalize_joint_angles f [2 * pi, 0, 0, 0, 0, 0] = [0, 0, 0, 0, 0, 0]"
proof -
  have "wrap_down (2 * pi) = wrap_down 0"
    by (subst wrap_down.simps) simp
  then have "wrap_up (wrap_down (2 * pi)) = 0"
    using normalize1_fixed [of 0] by simp
  then show ?thesis
    using normalize1_fixed [of 0] by (simp add: normalize_joint_angles_def)
qed

lemma spec_candidates_turned:
  "spec_candidates UR3_InverseKinematics
     [[- 1, 0, 0, 0.4569], [0, 1, 0, 0.11235], [0, 0, - 1, 0.06655], [0, 0, 0, 1]]
     [[0, 0, 0, 0, 0, 0], [2 * pi, 0, 0, 0, 0, 0]]
   = [[0, 0, 0, 0, 0, 0], [0, 0, 0, 0, 0, 0]]"
  by (simp only: spec_candidates.simps solve_single_home solve_single_turned normalize_zeros
      normalize_turned sum.case option.case)

lemma candidates_normalised:
  assumes c: "c \<in> set (spec_candidates self T seeds)"
  shows "\<exists>seed \<in> set seeds. \<exists>q. solve_single self T seed = Inr (Some q) \<and>
           c = normalize_joint_angles (fk self) q \<and> length c = length q \<and>
           (\<forall>k < length q. - pi \<le> c ! k \<and> c ! k \<le> pi \<and> (\<exists>m::int. c ! k = q ! k + 2 * pi * of_int m))"
proof -
  from spec_candidates_origin [OF c] obtain seed q where s: "seed \<in> set seeds"
    and r: "solve_single self T seed = Inr (Some q)" and e: "c = normalize_joint_angles (fk self) q"
    by blast
  have "length c = length q \<and>
        (\<forall>k < length q. - pi \<le> c ! k \<and> c ! k \<le> pi \<and> (\<exists>m::int. c ! k = q ! k + 2 * pi * of_int m))"
    unfolding e by (simp add: normalize_joint_angles_def normalize1_range normalize1_shift)
  then show ?thesis using s r e by blast
qed


text \<open>
  C3: for a 4 by 4 target, \<^verbatim>\<open>solve_ik\<close> returns the candidates kept by the
  first-found-first-kept rule, where the candidates are the results of the seeds that
  solved, each wrapped by whole turns into the range from \<open>-\<pi>\<close> to \<open>\<pi>\<close>, in seed order.
  Every returned solution has six angles in that range and is its own normalisation; no
  two returned solutions, normalised, are within 0.05 of each other in every joint; the
  returned list is a subsequence of the candidates; a candidate is dropped exactly when it
  is within 0.05 in every joint of a solution kept before it, and appended otherwise; and
  on the returned solutions the test the code performs is this test on the six joints.
  The same holds of the loop of \<^verbatim>\<open>solve_ik\<close> run on any list of seeds of six angles.
\<close>

theorem solve_ik_deduplicated:
  assumes T: "is_mat 4 4 T" and S: "\<forall>s \<in> set seeds. length s = 6"
  shows "(\<exists>sols. solve_ik self sample T = Inr sols \<and>
            sols = spec_first_kept [] (spec_candidates self T (generate_seeds sample)) \<and>
            subseq sols (spec_candidates self T (generate_seeds sample)) \<and>
            (\<forall>i j. i < j \<and> j < length sols \<longrightarrow>
               \<not> within_threshold (normalize_joint_angles (fk self) (sols ! i))
                                    (normalize_joint_angles (fk self) (sols ! j)) \<and>
               \<not> within_threshold (sols ! i) (sols ! j) \<and> \<not> within_threshold (sols ! j) (sols ! i)) \<and>
            (\<forall>s \<in> set sols. length s = 6 \<and> normalize_joint_angles (fk self) s = s \<and>
               (\<forall>a \<in> set s. - pi \<le> a \<and> a \<le> pi)) \<and>
            (\<forall>s \<in> set sols. \<forall>e \<in> set sols. is_duplicate self s e = within_threshold s e))
    \<and> (\<exists>sols. solve_seeds self T seeds [] = Inr sols \<and>
            sols = spec_first_kept [] (spec_candidates self T seeds) \<and>
            subseq sols (spec_candidates self T seeds) \<and>
            (\<forall>i j. i < j \<and> j < length sols \<longrightarrow>
               \<not> within_threshold (normalize_joint_angles (fk self) (sols ! i))
                                    (normalize_joint_angles (fk self) (sols ! j)) \<and>
               \<not> within_threshold (sols ! i) (sols ! j) \<and> \<not> within_threshold (sols ! j) (sols ! i)) \<and>
            (\<forall>s \<in> set sols. length s = 6 \<and> normalize_joint_angles (fk self) s = s \<and>
               (\<forall>a \<in> set s. - pi \<le> a \<and> a \<le> pi)) \<and>
            (\<forall>s \<in> set sols. \<forall>e \<in> set sols. is_duplicate self s e = within_threshold s e))
    \<and> (\<forall>ss. \<forall>c \<in> set (spec_candidates self T ss).
           \<exists>seed \<in> set ss. \<exists>q. solve_single self T seed = Inr (Some q) \<and>
             c = normalize_joint_angles (fk self) q \<and> length c = length q \<and>
             (\<forall>k < length q. - pi \<le> c ! k \<and> c ! k \<le> pi \<and>
                 (\<exists>m::int. c ! k = q ! k + 2 * pi * of_int m)))
    \<and> (\<forall>cs c. spec_first_kept [] (cs @ [c]) =
           (if \<exists>e \<in> set (spec_first_kept [] cs). within_threshold c e then spec_first_kept [] cs
            else spec_first_kept [] cs @ [c]))"
proof -
  have main: "\<exists>sols. solve_seeds self T ss [] = Inr sols \<and>
            sols = spec_first_kept [] (spec_candidates self T ss) \<and>
            subseq sols (spec_candidates self T ss) \<and>
            (\<forall>i j. i < j \<and> j < length sols \<longrightarrow>
               \<not> within_threshold (normalize_joint_angles (fk self) (sols ! i))
                                    (normalize_joint_angles (fk self) (sols ! j)) \<and>
               \<not> within_threshold (sols ! i) (sols ! j) \<and> \<not> within_threshold (sols ! j) (sols ! i)) \<and>
            (\<forall>s \<in> set sols. length s = 6 \<and> normalize_joint_angles (fk self) s = s \<and>
               (\<forall>a \<in> set s. - pi \<le> a \<and> a \<le> pi)) \<and>
            (\<forall>s \<in> set sols. \<forall>e \<in> set sols. is_duplicate self s e = within_threshold s e)"
    if ss: "\<forall>s \<in> set ss. length s = 6" for ss
  proof -
    let ?cs = "spec_candidates self T ss"
    let ?sols = "spec_first_kept [] ?cs"
    have s: "solve_seeds self T ss [] = Inr ?sols"
      using T ss by (intro solve_seeds_spec) (auto simp: good_solutions_def)
    have sub: "subseq ?sols ?cs" using spec_first_kept_prefix [of "[]" ?cs] by auto
    have g: "good_solutions self ?cs" using T ss by (intro spec_candidates_good) auto
    have sset: "set ?sols \<subseteq> set ?cs" using set_spec_first_kept [of "[]" ?cs] by simp
    have n: "length s = 6 \<and> normalize_joint_angles (fk self) s = s \<and> (\<forall>a \<in> set s. - pi \<le> a \<and> a \<le> pi)"
      if m: "s \<in> set ?sols" for s
    proof -
      have ls: "length s = 6" and ns: "normalize_joint_angles (fk self) s = s"
        using g sset m by (auto simp: good_solutions_def)
      have "- pi \<le> a \<and> a \<le> pi" if "a \<in> set s" for a
      proof -
        have "a \<in> set (normalize_joint_angles (fk self) s)" using that ns by simp
        then show ?thesis using normalize1_range by (auto simp: normalize_joint_angles_def)
      qed
      then show ?thesis using ls ns by blast
    qed
    have "sorted_wrt (\<lambda>a b. \<not> within_threshold a b) ?sols"
      by (rule spec_first_kept_distinct) simp
    then have d0: "\<not> within_threshold (?sols ! i) (?sols ! j) \<and> \<not> within_threshold (?sols ! j) (?sols ! i)"
      if "i < j \<and> j < length ?sols" for i j
      using that by (auto simp: sorted_wrt_iff_nth_less within_threshold_sym)
    have d: "\<not> within_threshold (normalize_joint_angles (fk self) (?sols ! i))
                                    (normalize_joint_angles (fk self) (?sols ! j)) \<and>
               \<not> within_threshold (?sols ! i) (?sols ! j) \<and> \<not> within_threshold (?sols ! j) (?sols ! i)"
      if ij: "i < j \<and> j < length ?sols" for i j
    proof -
      have "?sols ! i \<in> set ?sols" "?sols ! j \<in> set ?sols" using ij by auto
      then have "normalize_joint_angles (fk self) (?sols ! i) = ?sols ! i"
        "normalize_joint_angles (fk self) (?sols ! j) = ?sols ! j"
        using n by blast+
      then show ?thesis using d0 [OF ij] by simp
    qed
    have dup: "\<forall>s \<in> set ?sols. \<forall>e \<in> set ?sols. is_duplicate self s e = within_threshold s e"
    proof (intro ballI)
      fix s e assume "s \<in> set ?sols" "e \<in> set ?sols"
      then have "length s = 6" "length e = 6" "normalize_joint_angles (fk self) e = e"
        using n by blast+
      then show "is_duplicate self s e = within_threshold s e" by (rule is_duplicate_within)
    qed
    show ?thesis using s sub d n dup by blast
  qed
  have a: "\<exists>sols. solve_ik self sample T = Inr sols \<and>
            sols = spec_first_kept [] (spec_candidates self T (generate_seeds sample)) \<and>
            subseq sols (spec_candidates self T (generate_seeds sample)) \<and>
            (\<forall>i j. i < j \<and> j < length sols \<longrightarrow>
               \<not> within_threshold (normalize_joint_angles (fk self) (sols ! i))
                                    (normalize_joint_angles (fk self) (sols ! j)) \<and>
               \<not> within_threshold (sols ! i) (sols ! j) \<and> \<not> within_threshold (sols ! j) (sols ! i)) \<and>
            (\<forall>s \<in> set sols. length s = 6 \<and> normalize_joint_angles (fk self) s = s \<and>
               (\<forall>a \<in> set s. - pi \<le> a \<and> a \<le> pi)) \<and>
            (\<forall>s \<in> set sols. \<forall>e \<in> set sols. is_duplicate self s e = within_threshold s e)"
    unfolding solve_ik_def using generate_seeds_shape [of sample] by (intro main) blast
  have b: "\<forall>ss. \<forall>c \<in> set (spec_candidates self T ss).
           \<exists>seed \<in> set ss. \<exists>q. solve_single self T seed = Inr (Some q) \<and>
             c = normalize_joint_angles (fk self) q \<and> length c = length q \<and>
             (\<forall>k < length q. - pi \<le> c ! k \<and> c ! k \<le> pi \<and>
                 (\<exists>m::int. c ! k = q ! k + 2 * pi * of_int m))"
    using candidates_normalised by blast
  have snoc: "\<forall>cs c. spec_first_kept [] (cs @ [c]) =
              (if \<exists>e \<in> set (spec_first_kept [] cs). within_threshold c e then spec_first_kept [] cs
               else spec_first_kept [] cs @ [c])"
    by (simp only: spec_first_kept_snoc) simp
  show ?thesis
    by (intro conjI) (rule a, rule main [OF S], rule b, rule snoc)
qed

theorem solve_ik_deduplicated_witness:
  "is_mat 4 4 [[- 1, 0, 0, 0.4569], [0, 1, 0, 0.11235], [0, 0, - 1, 0.06655], [0, 0, 0, 1]] \<and>
   solve_single UR3_InverseKinematics
     [[- 1, 0, 0, 0.4569], [0, 1, 0, 0.11235], [0, 0, - 1, 0.06655], [0, 0, 0, 1]] [2 * pi, 0, 0, 0, 0, 0]
     = Inr (Some [2 * pi, 0, 0, 0, 0, 0]) \<and>
   spec_candidates UR3_InverseKinematics
     [[- 1, 0, 0, 0.4569], [0, 1, 0, 0.11235], [0, 0, - 1, 0.06655], [0, 0, 0, 1]]
     [[0, 0, 0, 0, 0, 0], [2 * pi, 0, 0, 0, 0, 0]]
     = [[0, 0, 0, 0, 0, 0], [0, 0, 0, 0, 0, 0]] \<and>
   solve_seeds UR3_InverseKinematics
     [[- 1, 0, 0, 0.4569], [0, 1, 0, 0.11235], [0, 0, - 1, 0.06655], [0, 0, 0, 1]]
     [[0, 0, 0, 0, 0, 0], [2 * pi, 0, 0, 0, 0, 0]] []
     = Inr [[0, 0, 0, 0, 0, 0]] \<and>
   (\<exists>sols. solve_ik UR3_InverseKinematics (\<lambda>k. 0)
              [[- 1, 0, 0, 0.4569], [0, 1, 0, 0.11235], [0, 0, - 1, 0.06655], [0, 0, 0, 1]] = Inr sols \<and>
      sols \<noteq> [] \<and>
      (\<exists>s \<in> set sols. within_threshold [0, 0, 0, 0, 0, 0] s \<and> length s = 6 \<and>
         normalize_joint_angles (fk UR3_InverseKinematics) s = s)) \<and>
   spec_first_kept [] ([[0, 0, 0, 0, 0, 0]] @ [[0.01, 0, 0, 0, 0, 0]]) = [[0, 0, 0, 0, 0, 0]] \<and>
   spec_first_kept [] ([[0, 0, 0, 0, 0, 0]] @ [[1, 0, 0, 0, 0, 0]]) = [[0, 0, 0, 0, 0, 0], [1, 0, 0, 0, 0, 0]]"
proof -
  let ?T = "[[- 1, 0, 0, 0.4569], [0, 1, 0, 0.11235], [0, 0, - 1, 0.06655], [0, 0, 0, 1]] :: mat"
  let ?seeds = "[[0, 0, 0, 0, 0, 0], [2 * pi, 0, 0, 0, 0, 0]] :: vec list"
  have S: "\<forall>s \<in> set ?seeds. length s = 6" by simp
  note th = solve_ik_deduplicated [OF is_mat_home S, of UR3_InverseKinematics "\<lambda>k. 0"]
  have z: "within_threshold [0, 0, 0, 0, 0, 0] [0, 0, 0, 0, 0, 0]" by (rule within_threshold_refl)
  have fk2: "spec_first_kept [] [[0, 0, 0, 0, 0, 0], [0, 0, 0, 0, 0, 0 :: real]] = [[0, 0, 0, 0, 0, 0]]"
    using z by simp
  note thA = th [THEN conjunct1]
  note thB = th [THEN conjunct2, THEN conjunct1]
  note thD = th [THEN conjunct2, THEN conjunct2, THEN conjunct2]
  from thB obtain sols2 where "solve_seeds UR3_InverseKinematics ?T ?seeds [] = Inr sols2"
    and "sols2 = spec_first_kept [] (spec_candidates UR3_InverseKinematics ?T ?seeds)"
    by (elim exE conjE)
  then have b: "solve_seeds UR3_InverseKinematics ?T ?seeds [] = Inr [[0, 0, 0, 0, 0, 0]]"
    by (simp only: spec_candidates_turned fk2)
  from thA obtain sols where s: "solve_ik UR3_InverseKinematics (\<lambda>k. 0) ?T = Inr sols"
    and n: "\<forall>s \<in> set sols. length s = 6 \<and> normalize_joint_angles (fk UR3_InverseKinematics) s = s \<and>
               (\<forall>a \<in> set s. - pi \<le> a \<and> a \<le> pi)"
    by (elim exE conjE)
  from solve_ik_home_covers [OF s] obtain e where e: "e \<in> set sols" "within_threshold [0, 0, 0, 0, 0, 0] e"
    by blast
  then have ne: "sols \<noteq> []" by auto
  have "\<exists>s \<in> set sols. within_threshold [0, 0, 0, 0, 0, 0] s \<and> length s = 6 \<and>
         normalize_joint_angles (fk UR3_InverseKinematics) s = s"
    using e n by blast
  then have a: "\<exists>sols. solve_ik UR3_InverseKinematics (\<lambda>k. 0) ?T = Inr sols \<and> sols \<noteq> [] \<and>
      (\<exists>s \<in> set sols. within_threshold [0, 0, 0, 0, 0, 0] s \<and> length s = 6 \<and>
         normalize_joint_angles (fk UR3_InverseKinematics) s = s)"
    using s ne by blast
  have snoc: "spec_first_kept [] (cs @ [c]) =
              (if \<exists>e \<in> set (spec_first_kept [] cs). within_threshold c e then spec_first_kept [] cs
               else spec_first_kept [] cs @ [c])" for cs c
    by (rule thD [rule_format])
  have k: "spec_first_kept [] [[0, 0, 0, 0, 0, 0 :: real]] = [[0, 0, 0, 0, 0, 0]]" by simp
  have c1: "spec_first_kept [] ([[0, 0, 0, 0, 0, 0]] @ [[0.01, 0, 0, 0, 0, 0]]) = [[0, 0, 0, 0, 0, 0]]"
  proof -
    have "\<exists>e \<in> set (spec_first_kept [] [[0, 0, 0, 0, 0, 0]]). within_threshold [0.01, 0, 0, 0, 0, 0] e"
      unfolding k using within_threshold_near by simp
    then show ?thesis by (subst snoc) (simp only: if_True k)
  qed
  have c2: "spec_first_kept [] ([[0, 0, 0, 0, 0, 0]] @ [[1, 0, 0, 0, 0, 0]]) = [[0, 0, 0, 0, 0, 0], [1, 0, 0, 0, 0, 0]]"
  proof -
    have "\<not> (\<exists>e \<in> set (spec_first_kept [] [[0, 0, 0, 0, 0, 0]]). within_threshold [1, 0, 0, 0, 0, 0] e)"
      unfolding k using within_threshold_far by simp
    then show ?thesis by (subst snoc) (simp only: if_False k append.simps)
  qed
  show ?thesis
    by (intro conjI) (rule is_mat_home, rule solve_single_turned, rule spec_candidates_turned, rule b,
        rule a, rule c1, rule c2)
qed

text \<open>
  C10: for a 4 by 4 target, \<^verbatim>\<open>solve_ik\<close> returns at most 32 solutions, one per seed
  at most, and each returned solution is its own normalisation, with every angle between
  \<open>-\<pi>\<close> and \<open>\<pi>\<close>.
\<close>

theorem solve_ik_bounded:
  assumes "is_mat 4 4 T"
  shows "\<exists>sols. solve_ik self sample T = Inr sols \<and> length sols \<le> 32 \<and>
           length (generate_seeds sample) = 32 \<and>
           length sols \<le> length (generate_seeds sample) \<and>
           (\<forall>s \<in> set sols. normalize_joint_angles (fk self) s = s) \<and>
           (\<forall>s \<in> set sols. \<forall>a \<in> set s. - pi \<le> a \<and> a \<le> pi)"
proof -
  let ?cs = "spec_candidates self T (generate_seeds sample)"
  let ?sols = "spec_first_kept [] ?cs"
  have s: "solve_ik self sample T = Inr ?sols" using assms by (rule solve_ik_spec)
  have "length ?sols \<le> length ?cs" using length_spec_first_kept [of "[]" ?cs] by simp
  also have "\<dots> \<le> length (generate_seeds sample)" by (rule length_spec_candidates)
  finally have l: "length ?sols \<le> length (generate_seeds sample)" .
  have l32: "length (generate_seeds sample) = 32" using generate_seeds_shape by blast
  have g: "good_solutions self ?cs"
    using assms generate_seeds_shape [of sample] by (intro spec_candidates_good) auto
  have ss: "set ?sols \<subseteq> set ?cs" using set_spec_first_kept [of "[]" ?cs] by simp
  have n: "\<forall>s \<in> set ?sols. normalize_joint_angles (fk self) s = s"
    using g ss by (auto simp: good_solutions_def)
  have r: "- pi \<le> a \<and> a \<le> pi" if "s \<in> set ?sols" "a \<in> set s" for s a
  proof -
    have "normalize_joint_angles (fk self) s = s" using n that(1) by blast
    then have "a \<in> set (normalize_joint_angles (fk self) s)" using that(2) by simp
    then show ?thesis
      using normalize1_range by (auto simp: normalize_joint_angles_def)
  qed
  show ?thesis using s l l32 n r by auto
qed

theorem solve_ik_bounded_witness:
  "is_mat 4 4 [[- 1, 0, 0, 0.4569], [0, 1, 0, 0.11235], [0, 0, - 1, 0.06655], [0, 0, 0, 1]] \<and>
   (\<exists>sols. solve_ik UR3_InverseKinematics (\<lambda>k. 0)
              [[- 1, 0, 0, 0.4569], [0, 1, 0, 0.11235], [0, 0, - 1, 0.06655], [0, 0, 0, 1]] = Inr sols \<and>
      sols \<noteq> [] \<and> length sols \<le> 32 \<and>
      (\<exists>s \<in> set sols. within_threshold [0, 0, 0, 0, 0, 0] s \<and>
         normalize_joint_angles (fk UR3_InverseKinematics) s = s \<and>
         (\<forall>a \<in> set s. - pi \<le> a \<and> a \<le> pi)))"
proof -
  let ?T = "[[- 1, 0, 0, 0.4569], [0, 1, 0, 0.11235], [0, 0, - 1, 0.06655], [0, 0, 0, 1]] :: mat"
  from solve_ik_bounded [OF is_mat_home, of UR3_InverseKinematics "\<lambda>k. 0"]
  obtain sols where s: "solve_ik UR3_InverseKinematics (\<lambda>k. 0) ?T = Inr sols"
    and l: "length sols \<le> 32"
    and n: "\<forall>s \<in> set sols. normalize_joint_angles (fk UR3_InverseKinematics) s = s"
    and r: "\<forall>s \<in> set sols. \<forall>a \<in> set s. - pi \<le> a \<and> a \<le> pi"
    by blast
  from solve_ik_home_covers [OF s] obtain e where e: "e \<in> set sols" "within_threshold [0, 0, 0, 0, 0, 0] e"
    by blast
  then have ne: "sols \<noteq> []" by auto
  have "\<exists>s \<in> set sols. within_threshold [0, 0, 0, 0, 0, 0] s \<and>
         normalize_joint_angles (fk UR3_InverseKinematics) s = s \<and>
         (\<forall>a \<in> set s. - pi \<le> a \<and> a \<le> pi)"
    using e n r by blast
  then show ?thesis using is_mat_home s ne l by blast
qed

section \<open>Products of 3 by 3 arrays\<close>

lemma mat3_cases:
  assumes "is_mat 3 3 A"
  obtains a11 a12 a13 a21 a22 a23 a31 a32 a33
  where "A = [[a11, a12, a13], [a21, a22, a23], [a31, a32, a33]]"
proof -
  have l: "length A = 3" and r: "\<forall>r \<in> set A. length r = 3"
    using assms by (simp_all add: is_mat_def list_all_iff)
  have v: "\<exists>a b c. r = [a, b, c]" if "length r = 3" for r :: vec
    using that by (auto simp: length_Suc_conv numeral_3_eq_3)
  from l obtain r1 r2 r3 where A: "A = [r1, r2, r3]"
    by (auto simp: length_Suc_conv numeral_3_eq_3)
  from r A v [of r1] v [of r2] v [of r3] obtain a11 a12 a13 a21 a22 a23 a31 a32 a33
    where "r1 = [a11, a12, a13]" "r2 = [a21, a22, a23]" "r3 = [a31, a32, a33]" by auto
  with A that show thesis by blast
qed

lemma mat4_cases:
  assumes "is_mat 4 4 A"
  obtains a11 a12 a13 a14 a21 a22 a23 a24 a31 a32 a33 a34 a41 a42 a43 a44
  where "A = [[a11, a12, a13, a14], [a21, a22, a23, a24], [a31, a32, a33, a34], [a41, a42, a43, a44]]"
proof -
  have l: "length A = 4" and r: "\<forall>r \<in> set A. length r = 4"
    using assms by (simp_all add: is_mat_def list_all_iff)
  have v: "\<exists>a b c d. r = [a, b, c, d]" if "length r = 4" for r :: vec
    using that by (auto simp: length_Suc_conv numeral_eq_Suc)
  from l obtain r1 r2 r3 r4 where A: "A = [r1, r2, r3, r4]"
    by (auto simp: length_Suc_conv numeral_eq_Suc)
  from r A v [of r1] v [of r2] v [of r3] v [of r4]
  obtain a11 a12 a13 a14 a21 a22 a23 a24 a31 a32 a33 a34 a41 a42 a43 a44
    where "r1 = [a11, a12, a13, a14]" "r2 = [a21, a22, a23, a24]" "r3 = [a31, a32, a33, a34]"
      "r4 = [a41, a42, a43, a44]" by auto
  with A that show thesis by blast
qed

lemma mm_3_3:
  "mm [[a11, a12, a13], [a21, a22, a23], [a31, a32, a33]]
      [[b11, b12, b13], [b21, b22, b23], [b31, b32, b33]] =
   [[a11 * b11 + (a12 * b21 + a13 * b31), a11 * b12 + (a12 * b22 + a13 * b32), a11 * b13 + (a12 * b23 + a13 * b33)],
    [a21 * b11 + (a22 * b21 + a23 * b31), a21 * b12 + (a22 * b22 + a23 * b32), a21 * b13 + (a22 * b23 + a23 * b33)],
    [a31 * b11 + (a32 * b21 + a33 * b31), a31 * b12 + (a32 * b22 + a33 * b32), a31 * b13 + (a32 * b23 + a33 * b33)]]"
  by (simp add: mm_def col_def ncols_def numeral_3_eq_3)

lemma mT_3_3:
  "mT [[a11, a12, a13], [a21, a22, a23], [a31, a32, a33]] =
   [[a11, a21, a31], [a12, a22, a32], [a13, a23, a33]]"
  by (simp add: mT_def col_def ncols_def numeral_3_eq_3)

lemma mm_assoc3:
  assumes "is_mat 3 3 A" "is_mat 3 3 B" "is_mat 3 3 C"
  shows "mm (mm A B) C = mm A (mm B C)"
proof -
  from assms(1) obtain a11 a12 a13 a21 a22 a23 a31 a32 a33
    where A: "A = [[a11, a12, a13], [a21, a22, a23], [a31, a32, a33]]" by (rule mat3_cases)
  from assms(2) obtain b11 b12 b13 b21 b22 b23 b31 b32 b33
    where B: "B = [[b11, b12, b13], [b21, b22, b23], [b31, b32, b33]]" by (rule mat3_cases)
  from assms(3) obtain c11 c12 c13 c21 c22 c23 c31 c32 c33
    where C: "C = [[c11, c12, c13], [c21, c22, c23], [c31, c32, c33]]" by (rule mat3_cases)
  show ?thesis unfolding A B C by (simp add: mm_3_3 algebra_simps)
qed

lemma mT_mm3:
  assumes "is_mat 3 3 A" "is_mat 3 3 B"
  shows "mT (mm A B) = mm (mT B) (mT A)"
proof -
  from assms(1) obtain a11 a12 a13 a21 a22 a23 a31 a32 a33
    where A: "A = [[a11, a12, a13], [a21, a22, a23], [a31, a32, a33]]" by (rule mat3_cases)
  from assms(2) obtain b11 b12 b13 b21 b22 b23 b31 b32 b33
    where B: "B = [[b11, b12, b13], [b21, b22, b23], [b31, b32, b33]]" by (rule mat3_cases)
  show ?thesis unfolding A B by (simp add: mm_3_3 mT_3_3 algebra_simps)
qed

lemma mT_mT3: "is_mat 3 3 A \<Longrightarrow> mT (mT A) = A"
  by (erule mat3_cases) (simp add: mT_3_3)

lemma mm_eye3_left: "is_mat 3 3 A \<Longrightarrow> mm (eye 3) A = A"
  by (erule mat3_cases) (simp add: mm_3_3 eye_3)

lemma mm_eye3_right: "is_mat 3 3 A \<Longrightarrow> mm A (eye 3) = A"
  by (erule mat3_cases) (simp add: mm_3_3 eye_3)

lemma trace3_mm_commute:
  assumes "is_mat 3 3 A" "is_mat 3 3 B"
  shows "trace3 (mm A B) = trace3 (mm B A)"
proof -
  from assms(1) obtain a11 a12 a13 a21 a22 a23 a31 a32 a33
    where A: "A = [[a11, a12, a13], [a21, a22, a23], [a31, a32, a33]]" by (rule mat3_cases)
  from assms(2) obtain b11 b12 b13 b21 b22 b23 b31 b32 b33
    where B: "B = [[b11, b12, b13], [b21, b22, b23], [b31, b32, b33]]" by (rule mat3_cases)
  show ?thesis unfolding A B by (simp add: mm_3_3 trace3_def algebra_simps)
qed

lemma is_mat3_mm: "is_mat 3 3 A \<Longrightarrow> is_mat 3 3 B \<Longrightarrow> is_mat 3 3 (mm A B)"
  by (rule mm_is_mat [where n = 3]) simp_all

lemma is_mat3_mT: "is_mat 3 3 A \<Longrightarrow> is_mat 3 3 (mT A)"
  by (rule mT_is_mat) simp_all

lemma orthogonal3_eye: "orthogonal3 (eye 3)"
  by (simp add: orthogonal3_def eye_3 mm_3_3 mT_3_3 is_mat_def)

lemma orthogonal3_mm:
  assumes A: "orthogonal3 A" and B: "orthogonal3 B"
  shows "orthogonal3 (mm A B)"
proof -
  have a: "is_mat 3 3 A" "mm A (mT A) = eye 3" "mm (mT A) A = eye 3" using A by (simp_all add: orthogonal3_def)
  have b: "is_mat 3 3 B" "mm B (mT B) = eye 3" "mm (mT B) B = eye 3" using B by (simp_all add: orthogonal3_def)
  note ta = is_mat3_mT [OF a(1)] and tb = is_mat3_mT [OF b(1)]
  have m: "is_mat 3 3 (mm A B)" using a(1) b(1) by (rule is_mat3_mm)
  have "mm (mm A B) (mT (mm A B)) = mm (mm A B) (mm (mT B) (mT A))"
    by (simp only: mT_mm3 [OF a(1) b(1)])
  also have "\<dots> = mm A (mm B (mm (mT B) (mT A)))"
    by (rule mm_assoc3 [OF a(1) b(1) is_mat3_mm [OF tb ta]])
  also have "mm B (mm (mT B) (mT A)) = mm (mm B (mT B)) (mT A)"
    by (rule mm_assoc3 [OF b(1) tb ta, symmetric])
  also have "\<dots> = mT A" by (simp only: b(2) mm_eye3_left [OF ta])
  finally have l: "mm (mm A B) (mT (mm A B)) = eye 3" by (simp only: a(2))
  have "mm (mT (mm A B)) (mm A B) = mm (mm (mT B) (mT A)) (mm A B)"
    by (simp only: mT_mm3 [OF a(1) b(1)])
  also have "\<dots> = mm (mT B) (mm (mT A) (mm A B))"
    by (rule mm_assoc3 [OF tb ta m])
  also have "mm (mT A) (mm A B) = mm (mm (mT A) A) B"
    by (rule mm_assoc3 [OF ta a(1) b(1), symmetric])
  also have "\<dots> = B" by (simp only: a(3) mm_eye3_left [OF b(1)])
  finally have r: "mm (mT (mm A B)) (mm A B) = eye 3" by (simp only: b(3))
  show ?thesis using m l r by (simp add: orthogonal3_def)
qed

lemma orthogonal3_foldl:
  "orthogonal3 A \<Longrightarrow> list_all orthogonal3 Rs \<Longrightarrow> orthogonal3 (foldl mm A Rs)"
  by (induction Rs arbitrary: A) (simp_all add: orthogonal3_mm)

lemma peel_right:
  assumes A: "is_mat 3 3 A" and B: "is_mat 3 3 B" and S: "orthogonal3 S"
  shows "mm (mm A S) (mT (mm B S)) = mm A (mT B)"
proof -
  have s: "is_mat 3 3 S" "mm S (mT S) = eye 3" using S by (simp_all add: orthogonal3_def)
  note tb = is_mat3_mT [OF B] and ts = is_mat3_mT [OF s(1)]
  have "mm (mm A S) (mT (mm B S)) = mm (mm A S) (mm (mT S) (mT B))"
    by (simp only: mT_mm3 [OF B s(1)])
  also have "\<dots> = mm A (mm S (mm (mT S) (mT B)))"
    by (rule mm_assoc3 [OF A s(1) is_mat3_mm [OF ts tb]])
  also have "mm S (mm (mT S) (mT B)) = mm (mm S (mT S)) (mT B)"
    by (rule mm_assoc3 [OF s(1) ts tb, symmetric])
  also have "\<dots> = mT B" by (simp only: s(2) mm_eye3_left [OF tb])
  finally show ?thesis .
qed

lemma is_mat3_foldl:
  "is_mat 3 3 A \<Longrightarrow> list_all orthogonal3 Rs \<Longrightarrow> is_mat 3 3 (foldl mm A Rs)"
  by (induction Rs arbitrary: A) (simp_all add: is_mat3_mm orthogonal3_def)

lemma peel_foldl:
  "is_mat 3 3 A \<Longrightarrow> is_mat 3 3 B \<Longrightarrow> list_all orthogonal3 Rs \<Longrightarrow>
   mm (foldl mm A Rs) (mT (foldl mm B Rs)) = mm A (mT B)"
proof (induction Rs arbitrary: A B)
  case Nil
  show ?case by simp
next
  case (Cons S Rs)
  have S: "orthogonal3 S" and Rs: "list_all orthogonal3 Rs" using Cons.prems(3) by simp_all
  have s: "is_mat 3 3 S" using S by (simp add: orthogonal3_def)
  have "mm (foldl mm (mm A S) Rs) (mT (foldl mm (mm B S) Rs)) = mm (mm A S) (mT (mm B S))"
    by (rule Cons.IH [OF is_mat3_mm [OF Cons.prems(1) s] is_mat3_mm [OF Cons.prems(2) s] Rs])
  also have "\<dots> = mm A (mT B)" by (rule peel_right [OF Cons.prems(1) Cons.prems(2) S])
  finally show ?case by simp
qed

lemma trace3_conjugate:
  assumes Q: "orthogonal3 Q" and X: "is_mat 3 3 X" and Y: "is_mat 3 3 Y"
  shows "trace3 (mm (mm Q X) (mT (mm Q Y))) = trace3 (mm X (mT Y))"
proof -
  have q: "is_mat 3 3 Q" "mm (mT Q) Q = eye 3" using Q by (simp_all add: orthogonal3_def)
  note tq = is_mat3_mT [OF q(1)] and ty = is_mat3_mT [OF Y]
  let ?Z = "mm X (mT Y)"
  have z: "is_mat 3 3 ?Z" using X ty by (rule is_mat3_mm)
  have "mm (mm Q X) (mT (mm Q Y)) = mm (mm Q X) (mm (mT Y) (mT Q))"
    by (simp only: mT_mm3 [OF q(1) Y])
  also have "\<dots> = mm Q (mm X (mm (mT Y) (mT Q)))"
    by (rule mm_assoc3 [OF q(1) X is_mat3_mm [OF ty tq]])
  also have "mm X (mm (mT Y) (mT Q)) = mm ?Z (mT Q)"
    by (rule mm_assoc3 [OF X ty tq, symmetric])
  finally have "trace3 (mm (mm Q X) (mT (mm Q Y))) = trace3 (mm Q (mm ?Z (mT Q)))" by simp
  also have "\<dots> = trace3 (mm (mm ?Z (mT Q)) Q)"
    by (rule trace3_mm_commute [OF q(1) is_mat3_mm [OF z tq]])
  also have "mm (mm ?Z (mT Q)) Q = mm ?Z (mm (mT Q) Q)" by (rule mm_assoc3 [OF z tq q(1)])
  also have "\<dots> = ?Z" by (simp only: q(2) mm_eye3_right [OF z])
  finally show ?thesis .
qed

section \<open>The rotation parts of the chain\<close>

lemma rotation_part_4_4:
  "rotation_part [[a11, a12, a13, a14], [a21, a22, a23, a24], [a31, a32, a33, a34], [a41, a42, a43, a44]]
     = [[a11, a12, a13], [a21, a22, a23], [a31, a32, a33]]"
  by (simp add: rotation_part_def)

lemma homogeneous_rot: "homogeneous (rotx t)" "homogeneous (roty t)" "homogeneous (rotz t)"
  by (simp_all add: homogeneous_def rot_is_mat) (simp_all add: rotx_def roty_def rotz_def Let_def)

lemma homogeneous_create_transform: "homogeneous (create_transform xyz rpy)"
proof -
  obtain x y z where xyz: "xyz = (x, y, z)" by (cases xyz) auto
  obtain r p yw where rpy: "rpy = (r, p, yw)" by (cases rpy) auto
  have "create_transform xyz rpy ! 3 = [0, 0, 0, 1]"
    unfolding xyz rpy by (simp add: create_transform_def Let_def eye_4)
  then show ?thesis by (simp add: homogeneous_def create_transform_is_mat)
qed

lemma homogeneous_mm:
  assumes A: "homogeneous A" and B: "homogeneous B"
  shows "homogeneous (mm A B)"
proof -
  have a: "is_mat 4 4 A" "A ! 3 = [0, 0, 0, 1]" using A by (simp_all add: homogeneous_def)
  have b: "is_mat 4 4 B" "B ! 3 = [0, 0, 0, 1]" using B by (simp_all add: homogeneous_def)
  from a(1) obtain a11 a12 a13 a14 a21 a22 a23 a24 a31 a32 a33 a34 a41 a42 a43 a44
    where Ae: "A = [[a11, a12, a13, a14], [a21, a22, a23, a24], [a31, a32, a33, a34], [a41, a42, a43, a44]]"
    by (rule mat4_cases)
  from b(1) obtain b11 b12 b13 b14 b21 b22 b23 b24 b31 b32 b33 b34 b41 b42 b43 b44
    where Be: "B = [[b11, b12, b13, b14], [b21, b22, b23, b24], [b31, b32, b33, b34], [b41, b42, b43, b44]]"
    by (rule mat4_cases)
  have "mm A B ! 3 = [0, 0, 0, 1]" using a(2) b(2) unfolding Ae Be by (simp add: mm_4_4)
  moreover have "is_mat 4 4 (mm A B)" using a(1) b(1) by (rule mm_is_mat) simp
  ultimately show ?thesis by (simp add: homogeneous_def)
qed

lemma homogeneous_eye: "homogeneous (eye 4)"
  by (simp add: homogeneous_def eye_is_mat) (simp add: eye_4)

lemma homogeneous_joint_transform: "homogeneous (joint_transform xyz rpy t a)"
  unfolding joint_transform_def Let_def
  by (intro homogeneous_mm homogeneous_create_transform) (simp add: homogeneous_rot)

lemma rotation_part_mm:
  assumes A: "is_mat 4 4 A" and B: "homogeneous B"
  shows "rotation_part (mm A B) = mm (rotation_part A) (rotation_part B)"
proof -
  have b: "is_mat 4 4 B" "B ! 3 = [0, 0, 0, 1]" using B by (simp_all add: homogeneous_def)
  from A obtain a11 a12 a13 a14 a21 a22 a23 a24 a31 a32 a33 a34 a41 a42 a43 a44
    where Ae: "A = [[a11, a12, a13, a14], [a21, a22, a23, a24], [a31, a32, a33, a34], [a41, a42, a43, a44]]"
    by (rule mat4_cases)
  from b(1) obtain b11 b12 b13 b14 b21 b22 b23 b24 b31 b32 b33 b34 b41 b42 b43 b44
    where Be: "B = [[b11, b12, b13, b14], [b21, b22, b23, b24], [b31, b32, b33, b34], [b41, b42, b43, b44]]"
    by (rule mat4_cases)
  show ?thesis using b(2) unfolding Ae Be by (simp add: mm_4_4 rotation_part_4_4 mm_3_3)
qed

lemma rotation_part_eye: "rotation_part (eye 4) = eye 3"
  by (simp add: eye_4 eye_3 rotation_part_4_4)

lemma sin_cos_squared_mult: "sin t * sin t + cos t * cos t = (1::real)" "cos t * cos t + sin t * sin t = (1::real)"
  using sin_cos_squared_add [of t] by (simp_all add: power2_eq_square add.commute)

lemma orthogonal3_rot:
  "orthogonal3 (rotation_part (rotx t))" "orthogonal3 (rotation_part (roty t))"
  "orthogonal3 (rotation_part (rotz t))"
  by (simp_all add: orthogonal3_def rotx_def roty_def rotz_def Let_def rotation_part_4_4 mm_3_3 mT_3_3
      eye_3 is_mat_def sin_cos_squared_mult)

lemma rotation_part_create_transform:
  "rotation_part (create_transform xyz (r, p, yw))
     = mm (mm (rotation_part (rotz yw)) (rotation_part (roty p))) (rotation_part (rotx r))"
proof -
  obtain x y z where xyz: "xyz = (x, y, z)" by (cases xyz) auto
  let ?M = "mm (mm (rotz yw) (roty p)) (rotx r)"
  have m: "is_mat 4 4 (mm (rotz yw) (roty p))" by (rule mm_is_mat [where n = 4]) (simp_all add: rot_is_mat)
  have M: "is_mat 4 4 ?M" using m by (rule mm_is_mat [where n = 4]) (simp_all add: rot_is_mat)
  have "rotation_part ?M = mm (rotation_part (mm (rotz yw) (roty p))) (rotation_part (rotx r))"
    using m by (rule rotation_part_mm) (rule homogeneous_rot)
  also have "rotation_part (mm (rotz yw) (roty p)) = mm (rotation_part (rotz yw)) (rotation_part (roty p))"
    by (rule rotation_part_mm) (simp_all add: rot_is_mat homogeneous_rot)
  finally have e: "rotation_part ?M
     = mm (mm (rotation_part (rotz yw)) (rotation_part (roty p))) (rotation_part (rotx r))" .
  from M obtain a11 a12 a13 a14 a21 a22 a23 a24 a31 a32 a33 a34 a41 a42 a43 a44
    where Me: "?M = [[a11, a12, a13, a14], [a21, a22, a23, a24], [a31, a32, a33, a34], [a41, a42, a43, a44]]"
    by (rule mat4_cases)
  have "rotation_part (create_transform xyz (r, p, yw)) = rotation_part ?M"
    unfolding xyz by (simp add: create_transform_def Let_def Me rotation_part_4_4 eye_4)
  then show ?thesis by (simp only: e)
qed

lemma orthogonal3_create_transform: "orthogonal3 (rotation_part (create_transform xyz rpy))"
proof -
  obtain r p yw where rpy: "rpy = (r, p, yw)" by (cases rpy) auto
  show ?thesis unfolding rpy rotation_part_create_transform
    by (intro orthogonal3_mm orthogonal3_rot)
qed

lemma rotation_part_joint_transform:
  "rotation_part (joint_transform xyz rpy t a)
     = mm (rotation_part (create_transform xyz rpy))
          (rotation_part (if a = ''z'' then rotz t else if a = ''y'' then roty t else rotx t))"
  unfolding joint_transform_def Let_def
  by (rule rotation_part_mm) (simp_all add: create_transform_is_mat homogeneous_rot)

lemma orthogonal3_joint_transform: "orthogonal3 (rotation_part (joint_transform xyz rpy t a))"
  unfolding rotation_part_joint_transform
  by (intro orthogonal3_mm orthogonal3_create_transform) (simp add: orthogonal3_rot)

lemma rot_difference:
  "mm (rotation_part (rotx (t + d))) (mT (rotation_part (rotx t))) = rotation_part (rotx d)"
  "mm (rotation_part (roty (t + d))) (mT (rotation_part (roty t))) = rotation_part (roty d)"
  "mm (rotation_part (rotz (t + d))) (mT (rotation_part (rotz t))) = rotation_part (rotz d)"
proof -
  have c: "cos (t + d) * cos t + sin (t + d) * sin t = cos d"
    using cos_diff [of "t + d" t] by simp
  have s: "sin (t + d) * cos t - cos (t + d) * sin t = sin d"
    using sin_diff [of "t + d" t] by simp
  have s': "cos (t + d) * sin t - sin (t + d) * cos t = - sin d" using s by simp
  have c': "sin (t + d) * sin t + cos (t + d) * cos t = cos d" using c by simp
  show "mm (rotation_part (rotx (t + d))) (mT (rotation_part (rotx t))) = rotation_part (rotx d)"
    using c s s' c' by (simp add: rotx_def Let_def rotation_part_4_4 mm_3_3 mT_3_3)
  show "mm (rotation_part (roty (t + d))) (mT (rotation_part (roty t))) = rotation_part (roty d)"
    using c s s' c' by (simp add: roty_def Let_def rotation_part_4_4 mm_3_3 mT_3_3)
  show "mm (rotation_part (rotz (t + d))) (mT (rotation_part (rotz t))) = rotation_part (rotz d)"
    using c s s' c' by (simp add: rotz_def Let_def rotation_part_4_4 mm_3_3 mT_3_3)
qed

lemma trace3_rot:
  "trace3 (rotation_part (rotx d)) = 1 + 2 * cos d"
  "trace3 (rotation_part (roty d)) = 1 + 2 * cos d"
  "trace3 (rotation_part (rotz d)) = 1 + 2 * cos d"
  by (simp_all add: rotx_def roty_def rotz_def Let_def rotation_part_4_4 trace3_def)

lemma rotation_part_create_transform_origin:
  "rotation_part (create_transform xyz rpy) = rotation_part (create_transform (0, 0, 0) rpy)"
proof -
  obtain r p yw where rpy: "rpy = (r, p, yw)" by (cases rpy) auto
  show ?thesis unfolding rpy by (simp only: rotation_part_create_transform)
qed

lemma chain_trace:
  assumes P: "orthogonal3 P" and O: "orthogonal3 Q" and post: "list_all orthogonal3 post"
    and X: "is_mat 3 3 X" and X': "is_mat 3 3 X'"
  shows "trace3 (mm (foldl mm (mm P (mm Q X')) post) (mT (foldl mm (mm P (mm Q X)) post)))
           = trace3 (mm X' (mT X))"
proof -
  have p: "is_mat 3 3 P" and o: "is_mat 3 3 Q" using P O by (simp_all add: orthogonal3_def)
  have a: "is_mat 3 3 (mm P (mm Q X'))" "is_mat 3 3 (mm P (mm Q X))"
    using p o X X' by (simp_all add: is_mat3_mm)
  have e': "mm P (mm Q X') = mm (mm P Q) X'" by (rule mm_assoc3 [OF p o X', symmetric])
  have e: "mm P (mm Q X) = mm (mm P Q) X" by (rule mm_assoc3 [OF p o X, symmetric])
  have "mm (foldl mm (mm P (mm Q X')) post) (mT (foldl mm (mm P (mm Q X)) post))
      = mm (mm P (mm Q X')) (mT (mm P (mm Q X)))"
    using a post by (rule peel_foldl)
  then have "trace3 (mm (foldl mm (mm P (mm Q X')) post) (mT (foldl mm (mm P (mm Q X)) post)))
      = trace3 (mm (mm (mm P Q) X') (mT (mm (mm P Q) X)))"
    by (simp only: e e')
  also have "\<dots> = trace3 (mm X' (mT X))"
    by (rule trace3_conjugate [OF orthogonal3_mm [OF P O] X' X])
  finally show ?thesis .
qed

lemma wrist_3_rotation:
  assumes q: "6 \<le> length q"
  shows "\<exists>T. get_end_effector_transform f q = Inr T \<and> rotation_part T =
     foldl mm (eye 3)
       [mm (rotation_part (create_transform (0, 0, 0) (0, 0, 0))) (rotation_part (rotz (q ! 0))),
        mm (rotation_part (create_transform (0, 0, 0) (0, pi / 2, 0))) (rotation_part (roty (q ! 1))),
        mm (rotation_part (create_transform (0, 0, 0) (0, 0, 0))) (rotation_part (roty (q ! 2))),
        mm (rotation_part (create_transform (0, 0, 0) (0, pi / 2, 0))) (rotation_part (roty (q ! 3))),
        mm (rotation_part (create_transform (0, 0, 0) (0, 0, 0))) (rotation_part (rotz (q ! 4))),
        mm (rotation_part (create_transform (0, 0, 0) (0, 0, 0))) (rotation_part (roty (q ! 5)))]"
proof -
  have m: "is_mat 4 4 A \<Longrightarrow> is_mat 4 4 (mm A (joint_transform xyz rpy t a))" for A xyz rpy t a
    by (rule mm_is_mat [where n = 4]) (simp_all add: joint_transform_is_mat)
  have r: "is_mat 4 4 A \<Longrightarrow> rotation_part (mm A (joint_transform xyz rpy t a))
      = mm (rotation_part A) (mm (rotation_part (create_transform (0, 0, 0) rpy))
          (rotation_part (if a = ''z'' then rotz t else if a = ''y'' then roty t else rotx t)))"
    for A xyz rpy t a
    using rotation_part_mm [OF _ homogeneous_joint_transform, of A xyz rpy t a]
      rotation_part_joint_transform [of xyz rpy t a]
      rotation_part_create_transform_origin [of xyz rpy]
    by simp
  show ?thesis
    using q
    by (simp add: get_end_effector_transform_def forward_kinematics_def Let_def r m eye_is_mat
        rotation_part_eye)
qed

lemma chain_trace_list:
  assumes pre: "list_all orthogonal3 pre" and Q: "orthogonal3 Q" and post: "list_all orthogonal3 post"
    and X: "is_mat 3 3 X" and X': "is_mat 3 3 X'"
  shows "trace3 (mm (foldl mm (eye 3) (pre @ mm Q X' # post)) (mT (foldl mm (eye 3) (pre @ mm Q X # post))))
           = trace3 (mm X' (mT X))"
proof -
  have P: "orthogonal3 (foldl mm (eye 3) pre)"
    using orthogonal3_eye pre by (rule orthogonal3_foldl)
  show ?thesis
    using chain_trace [OF P Q post X X'] by simp
qed

lemma increment_trace:
  assumes q: "6 \<le> length q" and i: "i < 6"
    and T0: "get_end_effector_transform f q = Inr T0"
    and Tp: "get_end_effector_transform f (q[i := q ! i + d]) = Inr T_plus"
  shows "trace3 (mm (rotation_part T_plus) (mT (rotation_part T0))) = 1 + 2 * cos d"
proof -
  let ?E = "rotation_part (create_transform (0, 0, 0) (0, 0, 0))"
  let ?Y = "rotation_part (create_transform (0, 0, 0) (0, pi / 2, 0))"
  let ?z = "\<lambda>t. rotation_part (rotz t)"
  let ?y = "\<lambda>t. rotation_part (roty t)"
  let ?Rs = "\<lambda>q :: vec. [mm ?E (?z (q ! 0)), mm ?Y (?y (q ! 1)), mm ?E (?y (q ! 2)),
      mm ?Y (?y (q ! 3)), mm ?E (?z (q ! 4)), mm ?E (?y (q ! 5))]"
  let ?qp = "q[i := q ! i + d]"
  have R0: "rotation_part T0 = foldl mm (eye 3) (?Rs q)"
    using wrist_3_rotation [OF q, of f] T0 by auto
  have qp: "6 \<le> length ?qp" using q by simp
  have Rp: "rotation_part T_plus = foldl mm (eye 3) (?Rs ?qp)"
    using wrist_3_rotation [OF qp, of f] Tp by auto
  have oE: "orthogonal3 ?E" and oY: "orthogonal3 ?Y" by (rule orthogonal3_create_transform)+
  have oz: "orthogonal3 (?z t)" and oy: "orthogonal3 (?y t)" for t by (rule orthogonal3_rot)+
  have mz: "is_mat 3 3 (?z t)" and my: "is_mat 3 3 (?y t)" for t
    using oz [of t] oy [of t] by (simp_all add: orthogonal3_def)
  note oj = orthogonal3_mm [OF oE oz] orthogonal3_mm [OF oE oy] orthogonal3_mm [OF oY oy]
  have tz: "trace3 (mm (?z (t + d)) (mT (?z t))) = 1 + 2 * cos d" for t
    by (simp only: rot_difference trace3_rot)
  have ty: "trace3 (mm (?y (t + d)) (mT (?y t))) = 1 + 2 * cos d" for t
    by (simp only: rot_difference trace3_rot)
  have nth: "?qp ! k = (if k = i then q ! i + d else q ! k)" if "k < 6" for k
    using q that by (simp add: nth_list_update)
  have qk: "?qp ! 0 = (if i = 0 then q ! i + d else q ! 0)" "?qp ! 1 = (if i = 1 then q ! i + d else q ! 1)"
    "?qp ! 2 = (if i = 2 then q ! i + d else q ! 2)" "?qp ! 3 = (if i = 3 then q ! i + d else q ! 3)"
    "?qp ! 4 = (if i = 4 then q ! i + d else q ! 4)" "?qp ! 5 = (if i = 5 then q ! i + d else q ! 5)"
    using nth [of 0] nth [of 1] nth [of 2] nth [of 3] nth [of 4] nth [of 5] by simp_all
  consider "i = 0" | "i = 1" | "i = 2" | "i = 3" | "i = 4" | "i = 5" using i by linarith
  then have "trace3 (mm (foldl mm (eye 3) (?Rs ?qp)) (mT (foldl mm (eye 3) (?Rs q)))) = 1 + 2 * cos d"
  proof cases
    case 1
    have "trace3 (mm (foldl mm (eye 3) ([] @ mm ?E (?z (q ! 0 + d)) # tl (?Rs q)))
                     (mT (foldl mm (eye 3) ([] @ mm ?E (?z (q ! 0)) # tl (?Rs q)))))
            = trace3 (mm (?z (q ! 0 + d)) (mT (?z (q ! 0))))"
      by (rule chain_trace_list) (simp_all add: oE oj mz)
    then show ?thesis by (simp only: qk) (simp add: 1 tz)
  next
    case 2
    have "trace3 (mm (foldl mm (eye 3) (take 1 (?Rs q) @ mm ?Y (?y (q ! 1 + d)) # drop 2 (?Rs q)))
                     (mT (foldl mm (eye 3) (take 1 (?Rs q) @ mm ?Y (?y (q ! 1)) # drop 2 (?Rs q)))))
            = trace3 (mm (?y (q ! 1 + d)) (mT (?y (q ! 1))))"
      by (rule chain_trace_list) (simp_all add: oY oj my)
    then show ?thesis by (simp only: qk) (simp add: 2 ty)
  next
    case 3
    have "trace3 (mm (foldl mm (eye 3) (take 2 (?Rs q) @ mm ?E (?y (q ! 2 + d)) # drop 3 (?Rs q)))
                     (mT (foldl mm (eye 3) (take 2 (?Rs q) @ mm ?E (?y (q ! 2)) # drop 3 (?Rs q)))))
            = trace3 (mm (?y (q ! 2 + d)) (mT (?y (q ! 2))))"
      by (rule chain_trace_list) (simp_all add: oE oj my)
    then show ?thesis by (simp only: qk) (simp add: 3 ty)
  next
    case 4
    have "trace3 (mm (foldl mm (eye 3) (take 3 (?Rs q) @ mm ?Y (?y (q ! 3 + d)) # drop 4 (?Rs q)))
                     (mT (foldl mm (eye 3) (take 3 (?Rs q) @ mm ?Y (?y (q ! 3)) # drop 4 (?Rs q)))))
            = trace3 (mm (?y (q ! 3 + d)) (mT (?y (q ! 3))))"
      by (rule chain_trace_list) (simp_all add: oY oj my)
    then show ?thesis by (simp only: qk) (simp add: 4 ty)
  next
    case 5
    have "trace3 (mm (foldl mm (eye 3) (take 4 (?Rs q) @ mm ?E (?z (q ! 4 + d)) # drop 5 (?Rs q)))
                     (mT (foldl mm (eye 3) (take 4 (?Rs q) @ mm ?E (?z (q ! 4)) # drop 5 (?Rs q)))))
            = trace3 (mm (?z (q ! 4 + d)) (mT (?z (q ! 4))))"
      by (rule chain_trace_list) (simp_all add: oE oj mz)
    then show ?thesis by (simp only: qk) (simp add: 5 tz)
  next
    case 6
    have "trace3 (mm (foldl mm (eye 3) (take 5 (?Rs q) @ mm ?E (?y (q ! 5 + d)) # drop 6 (?Rs q)))
                     (mT (foldl mm (eye 3) (take 5 (?Rs q) @ mm ?E (?y (q ! 5)) # drop 6 (?Rs q)))))
            = trace3 (mm (?y (q ! 5 + d)) (mT (?y (q ! 5))))"
      by (rule chain_trace_list) (simp_all add: oE oj my)
    then show ?thesis by (simp only: qk) (simp add: 6 ty)
  qed
  then show ?thesis by (simp only: R0 Rp)
qed

section \<open>Rotations by an angle near zero\<close>

lemma rotation_angle_range: "0 \<le> rotation_angle R \<and> rotation_angle R \<le> pi"
  by (simp add: rotation_angle_def clip_def arccos_lbound arccos_ubound)

lemma solve_ik_total:
  "is_mat 4 4 T \<Longrightarrow> \<exists>sols. solve_ik self sample T = Inr sols"
  using solve_ik_spec by blast

lemma get_end_effector_transform_full_turn:
  "get_end_effector_transform UR3_URDF_ForwardKinematics [0, 0, 0, 0, 0, 2 * pi] =
     Inr [[- 1, 0, 0, 0.4569], [0, 1, 0, 0.11235], [0, 0, - 1, 0.06655], [0, 0, 0, 1]]"
  by (simp add: get_end_effector_transform_def forward_kinematics_def UR3_URDF_ForwardKinematics_def
      joint_transform_def create_transform_def rotx_def roty_def rotz_def mm_def col_def ncols_def eye_4
      rotation_part_def Let_def)

lemma sin_rotation_angle_zero:
  "sin (rotation_angle R) = 0 \<longleftrightarrow> rotation_angle R = 0 \<or> trace3 R \<le> - 1"
proof -
  let ?c = "clip ((trace3 R - 1) / 2) (- 1) 1"
  have b: "- 1 \<le> ?c" "?c \<le> 1" by (simp_all add: clip_def)
  have r: "0 \<le> rotation_angle R" "rotation_angle R \<le> pi"
    using rotation_angle_range [of R] by simp_all
  have h: "trace3 R \<le> - 1 \<longleftrightarrow> ?c = - 1" by (auto simp: clip_def min_def max_def)
  have p: "rotation_angle R = pi \<longleftrightarrow> ?c = - 1"
  proof
    assume "rotation_angle R = pi"
    then have "cos (arccos ?c) = cos pi" by (simp add: rotation_angle_def)
    then show "?c = - 1" using b by (simp add: cos_arccos)
  next
    assume "?c = - 1"
    then show "rotation_angle R = pi" by (simp add: rotation_angle_def)
  qed
  show ?thesis
  proof
    assume s: "sin (rotation_angle R) = 0"
    show "rotation_angle R = 0 \<or> trace3 R \<le> - 1"
    proof (rule ccontr)
      assume n: "\<not> (rotation_angle R = 0 \<or> trace3 R \<le> - 1)"
      then have "0 < rotation_angle R" "rotation_angle R < pi" using r p h by auto
      then have "0 < sin (rotation_angle R)" by (rule sin_gt_zero)
      then show False using s by simp
    qed
  next
    assume "rotation_angle R = 0 \<or> trace3 R \<le> - 1"
    then show "sin (rotation_angle R) = 0" using h p by auto
  qed
qed

lemma orientation_error_finite_eq:
  "orientation_error_finite self R_d R_c =
     (if \<not> rotation_angle (mm R_d (mT R_c)) < epsilon self \<and> sin (rotation_angle (mm R_d (mT R_c))) = 0
      then NonFinite else Returned (orientation_error self R_d R_c))"
  by (simp add: orientation_error_finite_def orientation_error_def true_divide_def Let_def)

lemma jacobian_column_finite_eq:
  assumes g: "get_end_effector_transform (fk self) (q[i := q ! i + delta]) = Inr T_plus"
  shows "jacobian_column_finite self q delta p0 R0 i =
     (if delta = 0 \<or> \<not> rotation_angle (mm (rotation_part T_plus) (mT R0)) < 0.0000000001 \<and>
           sin (rotation_angle (mm (rotation_part T_plus) (mT R0))) = 0
      then NonFinite else of_result (jacobian_column self q delta p0 R0 i))"
  by (simp add: jacobian_column_finite_def jacobian_column_def true_divide_def divide_each_def
      of_result_def g Let_def)

lemma jacobian_column_finite_raised:
  assumes g: "get_end_effector_transform (fk self) (q[i := q ! i + delta]) = Inl e"
  shows "jacobian_column_finite self q delta p0 R0 i = Raised e"
  by (simp add: jacobian_column_finite_def of_result_def g Let_def)

lemma of_result_simps [simp]:
  "of_result (Inl e) = Raised e" "of_result (Inr x) = Returned x"
  by (simp_all add: of_result_def)

lemma of_result_not_NonFinite [simp]: "of_result r \<noteq> NonFinite"
  by (cases r) simp_all

lemma cos_not_minus_one_trace:
  fixes d :: real
  shows "cos d \<noteq> - 1 \<longleftrightarrow> - 1 < 1 + 2 * cos d"
proof
  assume "cos d \<noteq> - 1"
  moreover have "- 1 \<le> cos d" by (rule cos_ge_minus_one)
  ultimately have "- 1 < cos d" by (simp only: less_le) simp
  then show "- 1 < 1 + 2 * cos d" by simp
next
  assume "- 1 < 1 + 2 * cos d"
  then show "cos d \<noteq> - 1" by auto
qed

lemma rotation_angle_half_turn: "trace3 R \<le> - 1 \<Longrightarrow> rotation_angle R = pi"
proof -
  assume "trace3 R \<le> - 1"
  then have "clip ((trace3 R - 1) / 2) (- 1) 1 = - 1" by (simp add: clip_def min_def max_def)
  then show ?thesis by (simp add: rotation_angle_def)
qed

lemma jacobian_column_finite_NonFinite:
  assumes q: "6 \<le> length q" and i: "i < 6"
    and T0: "get_end_effector_transform (fk self) q = Inr T0"
  shows "jacobian_column_finite self q delta p0 (rotation_part T0) i = NonFinite
           \<longleftrightarrow> delta = 0 \<or> cos delta = - 1"
proof -
  have "6 \<le> length (q[i := q ! i + delta])" using q by simp
  then obtain Tp where Tp: "get_end_effector_transform (fk self) (q[i := q ! i + delta]) = Inr Tp"
    using get_end_effector_transform_shape by blast
  let ?dR = "mm (rotation_part Tp) (mT (rotation_part T0))"
  have t: "trace3 ?dR = 1 + 2 * cos delta" using q i T0 Tp by (rule increment_trace)
  have z: "sin (rotation_angle ?dR) = 0 \<longleftrightarrow> rotation_angle ?dR = 0 \<or> cos delta = - 1"
    using cos_not_minus_one_trace [of delta] by (auto simp: sin_rotation_angle_zero t)
  have h: "\<not> rotation_angle ?dR < 0.0000000001" if "cos delta = - 1"
  proof -
    have "trace3 ?dR \<le> - 1" using that t by simp
    then have "rotation_angle ?dR = pi" by (rule rotation_angle_half_turn)
    then show ?thesis using pi_ge_two by simp
  qed
  have "\<not> rotation_angle ?dR < 0.0000000001 \<and> sin (rotation_angle ?dR) = 0 \<longleftrightarrow> cos delta = - 1"
    using h z by auto
  then show ?thesis
    by (simp add: jacobian_column_finite_eq [OF Tp]) 
qed

lemma jacobian_column_finite_self:
  assumes T0: "get_end_effector_transform (fk self) q = Inr T0"
    and i: "i < 6" and d: "delta \<noteq> 0" "cos delta \<noteq> - 1"
  shows "jacobian_column_finite self q delta p0 (rotation_part T0) i
           = of_result (jacobian_column self q delta p0 (rotation_part T0) i)"
proof -
  have q: "6 \<le> length q" using T0 get_end_effector_transform_Inr by blast
  then have "6 \<le> length (q[i := q ! i + delta])" by simp
  then obtain Tp where Tp: "get_end_effector_transform (fk self) (q[i := q ! i + delta]) = Inr Tp"
    using get_end_effector_transform_shape by blast
  have "jacobian_column_finite self q delta p0 (rotation_part T0) i \<noteq> NonFinite"
    using jacobian_column_finite_NonFinite [OF q i T0, of delta p0] d by simp
  then show ?thesis
    unfolding jacobian_column_finite_eq [OF Tp] by metis
qed

lemma jacobian_columns_finite_self:
  assumes T0: "get_end_effector_transform (fk self) q = Inr T0"
    and d: "delta \<noteq> 0" "cos delta \<noteq> - 1"
  shows "\<forall>i \<in> set is. i < 6 \<Longrightarrow>
         jacobian_columns_finite self q delta p0 (rotation_part T0) is
           = of_result (jacobian_columns self q delta p0 (rotation_part T0) is)"
proof (induction "is")
  case Nil
  show ?case by simp
next
  case (Cons i "is")
  have i: "i < 6" using Cons.prems by simp
  have r: "jacobian_columns_finite self q delta p0 (rotation_part T0) is
           = of_result (jacobian_columns self q delta p0 (rotation_part T0) is)"
    using Cons.prems by (intro Cons.IH) simp
  show ?case
    by (simp add: jacobian_column_finite_self [OF T0 i d] r split: sum.splits)
qed

lemma numerical_jacobian_finite_self:
  assumes d: "delta \<noteq> 0" "cos delta \<noteq> - 1"
  shows "numerical_jacobian_finite self q delta = of_result (numerical_jacobian self q delta)"
proof (cases "get_end_effector_transform (fk self) q")
  case (Inl e)
  then show ?thesis by (simp add: numerical_jacobian_finite_def numerical_jacobian_def)
next
  case (Inr T0)
  have "jacobian_columns_finite self q delta (translation_part T0) (rotation_part T0) [0..<6]
      = of_result (jacobian_columns self q delta (translation_part T0) (rotation_part T0) [0..<6])"
    using Inr d by (rule jacobian_columns_finite_self) simp
  then show ?thesis
    by (simp add: numerical_jacobian_finite_def numerical_jacobian_def Inr Let_def split: sum.splits)
qed

lemma delta_regular: "(0.000001 :: real) \<noteq> 0" "cos (0.000001 :: real) \<noteq> - 1"
proof -
  have "(0.000001 :: real) < pi / 2" using pi_ge_two by simp
  then have "0 < cos (0.000001 :: real)" by (intro cos_gt_zero_pi) simp_all
  then show "cos (0.000001 :: real) \<noteq> - 1" by simp
qed simp

lemma numerical_jacobian_finite_code:
  "numerical_jacobian_finite self q 0.000001 = of_result (numerical_jacobian self q 0.000001)"
  using delta_regular by (rule numerical_jacobian_finite_self)

lemma numerical_jacobian_finite_code':
  "numerical_jacobian_finite self q (1 / 1000000) = of_result (numerical_jacobian self q (1 / 1000000))"
  using numerical_jacobian_finite_code [of self q] by simp

lemma solve_iterations_finite_step:
  "solve_iterations_finite self T (Suc n) q =
     (case get_end_effector_transform (fk self) q of
        Inl e \<Rightarrow> Raised e
      | Inr T_c \<Rightarrow>
          if \<not> rotation_angle (mm (rotation_part T) (mT (rotation_part T_c))) < epsilon self \<and>
             sin (rotation_angle (mm (rotation_part T) (mT (rotation_part T_c)))) = 0
          then NonFinite
          else if converged self T q then Returned (if verify self q T 0.0001 0.005 then Some q else None)
          else case dls_step self T q of
                 Inl e \<Rightarrow> Raised e
               | Inr q' \<Rightarrow> solve_iterations_finite self T n q')"
  by (simp add: orientation_error_finite_eq numerical_jacobian_finite_code' pose_errors_def
      converged_def dls_step_def Let_def split: sum.splits)

declare solve_iterations_finite.simps(2) [simp del]

lemma solve_iterations_finite_refines:
  "(solve_iterations_finite self T n q = Returned r \<longrightarrow> solve_iterations self T n q = Inr r) \<and>
   (solve_iterations_finite self T n q = Raised e \<longrightarrow> solve_iterations self T n q = Inl e)"
proof (induction n arbitrary: q)
  case 0
  show ?case by simp
next
  case (Suc n)
  show ?case
    using Suc.IH
    by (auto simp: solve_iterations_finite_step solve_iterations_step pose_errors_def
        split: sum.splits if_splits)
qed

lemma half_turn_met:
  assumes g: "get_end_effector_transform (fk self) q = Inr T_c" and e: "0 < epsilon self"
  shows "\<not> rotation_angle (mm (rotation_part T) (mT (rotation_part T_c))) < epsilon self \<and>
         sin (rotation_angle (mm (rotation_part T) (mT (rotation_part T_c)))) = 0
         \<Longrightarrow> half_turn self T q"
  using e by (auto simp: half_turn_def g sin_rotation_angle_zero)

lemma solve_iterations_finite_NonFinite:
  assumes e: "0 < epsilon self"
  shows "solve_iterations_finite self T n q = NonFinite \<Longrightarrow>
         \<exists>k < n. \<exists>q'. iterate self T k q = Some q' \<and> half_turn self T q'"
proof (induction n arbitrary: q)
  case 0
  then show ?case by simp
next
  case (Suc n)
  from Suc.prems obtain T_c where g: "get_end_effector_transform (fk self) q = Inr T_c"
    by (cases "get_end_effector_transform (fk self) q") (simp_all add: solve_iterations_finite_step)
  let ?bad = "\<not> rotation_angle (mm (rotation_part T) (mT (rotation_part T_c))) < epsilon self \<and>
         sin (rotation_angle (mm (rotation_part T) (mT (rotation_part T_c)))) = 0"
  show ?case
  proof (cases ?bad)
    case True
    then have "half_turn self T q" using g e by (intro half_turn_met)
    then have "iterate self T 0 q = Some q \<and> half_turn self T q" by simp
    then show ?thesis by blast
  next
    case False
    with Suc.prems g obtain q' where s: "dls_step self T q = Inr q'"
      and r: "solve_iterations_finite self T n q' = NonFinite"
      by (auto simp: solve_iterations_finite_step split: if_splits sum.splits)
    from Suc.IH [OF r] obtain k q'' where k: "k < n" "iterate self T k q' = Some q''" "half_turn self T q''"
      by blast
    then have "Suc k < Suc n" "iterate self T (Suc k) q = Some q''" using s by simp_all
    with k(3) show ?thesis by blast
  qed
qed

lemma wrist_3_orthogonal:
  assumes g: "get_end_effector_transform f q = Inr T"
  shows "orthogonal3 (rotation_part T)"
proof -
  have q: "6 \<le> length q" using g get_end_effector_transform_Inr by blast
  have o: "orthogonal3 (mm (rotation_part (create_transform xyz rpy)) (rotation_part (rotz t)))"
    "orthogonal3 (mm (rotation_part (create_transform xyz rpy)) (rotation_part (roty t)))" for xyz rpy t
    by (intro orthogonal3_mm orthogonal3_create_transform orthogonal3_rot)+
  from wrist_3_rotation [OF q, of f] g have r: "rotation_part T =
     foldl mm (eye 3)
       [mm (rotation_part (create_transform (0, 0, 0) (0, 0, 0))) (rotation_part (rotz (q ! 0))),
        mm (rotation_part (create_transform (0, 0, 0) (0, pi / 2, 0))) (rotation_part (roty (q ! 1))),
        mm (rotation_part (create_transform (0, 0, 0) (0, 0, 0))) (rotation_part (roty (q ! 2))),
        mm (rotation_part (create_transform (0, 0, 0) (0, pi / 2, 0))) (rotation_part (roty (q ! 3))),
        mm (rotation_part (create_transform (0, 0, 0) (0, 0, 0))) (rotation_part (rotz (q ! 4))),
        mm (rotation_part (create_transform (0, 0, 0) (0, 0, 0))) (rotation_part (roty (q ! 5)))]"
    by auto
  show ?thesis
    unfolding r by (intro orthogonal3_foldl orthogonal3_eye) (simp add: o)
qed

lemma at_target:
  assumes g: "get_end_effector_transform (fk self) q = Inr T"
    and e: "0 < epsilon self" and t: "0 < tol self"
  shows "mm (rotation_part T) (mT (rotation_part T)) = eye 3"
    and "pose_errors self T q = Inr (vsub (translation_part T) (translation_part T), [0, 0, 0])"
    and "converged self T q" and "verify self q T 0.0001 0.005"
proof -
  show o: "mm (rotation_part T) (mT (rotation_part T)) = eye 3"
    using wrist_3_orthogonal [OF g] by (simp add: orthogonal3_def)
  have oe: "orientation_error self (rotation_part T) (rotation_part T) = [0, 0, 0]"
    using e by (simp add: orientation_error_def o rotation_angle_eye)
  show pe: "pose_errors self T q = Inr (vsub (translation_part T) (translation_part T), [0, 0, 0])"
    by (simp add: pose_errors_def g oe)
  have "norm2 [0, 0, 0] = 0" by (simp add: norm2_def)
  then show "converged self T q" using t by (simp add: converged_def pe norm2_vsub_self)
  show "verify self q T 0.0001 0.005"
    by (simp add: verify_def g Let_def norm2_vsub_self norm_fro_msub_self)
qed

lemma orientation_error_finite_identity:
  assumes e: "0 < epsilon self" and o: "mm R_d (mT R_c) = eye 3"
  shows "orientation_error_finite self R_d R_c = Returned [0, 0, 0]"
    and "true_divide (rotation_angle (mm R_d (mT R_c))) (2 * sin (rotation_angle (mm R_d (mT R_c)))) = NonFinite"
  using e by (simp_all add: orientation_error_finite_def o rotation_angle_eye true_divide_def)

lemma orientation_error_finite_NonFinite:
  assumes e: "0 < epsilon self"
  shows "orientation_error_finite self R_d R_c = NonFinite
           \<longleftrightarrow> epsilon self \<le> pi \<and> trace3 (mm R_d (mT R_c)) \<le> - 1"
proof -
  let ?R = "mm R_d (mT R_c)"
  have "\<not> rotation_angle ?R < epsilon self \<and> sin (rotation_angle ?R) = 0
          \<longleftrightarrow> epsilon self \<le> pi \<and> trace3 ?R \<le> - 1"
  proof
    assume a: "\<not> rotation_angle ?R < epsilon self \<and> sin (rotation_angle ?R) = 0"
    then have "rotation_angle ?R \<noteq> 0" using e by auto
    then have t: "trace3 ?R \<le> - 1" using a by (simp add: sin_rotation_angle_zero)
    then have "rotation_angle ?R = pi" by (rule rotation_angle_half_turn)
    then show "epsilon self \<le> pi \<and> trace3 ?R \<le> - 1" using a t by simp
  next
    assume a: "epsilon self \<le> pi \<and> trace3 ?R \<le> - 1"
    then have "rotation_angle ?R = pi" by (intro rotation_angle_half_turn) simp
    then show "\<not> rotation_angle ?R < epsilon self \<and> sin (rotation_angle ?R) = 0" using a by simp
  qed
  then show ?thesis by (simp add: orientation_error_finite_eq)
qed

lemma orientation_error_finite_refines:
  "orientation_error_finite self R_d R_c = Returned dw \<Longrightarrow> orientation_error self R_d R_c = dw"
  by (simp add: orientation_error_finite_eq split: if_splits)

lemma jacobian_column_finite_full_turn:
  assumes q: "6 \<le> length q" and i: "i < 6"
    and T0: "get_end_effector_transform (fk self) q = Inr T0"
    and Tp: "get_end_effector_transform (fk self) (q[i := q ! i + delta]) = Inr T_plus"
    and d: "delta \<noteq> 0" "cos delta = 1"
  shows "jacobian_column_finite self q delta p0 (rotation_part T0) i
           = Returned (map (\<lambda>x. x / delta) (vsub (translation_part T_plus) p0) @ [0, 0, 0])"
    and "true_divide (rotation_angle (mm (rotation_part T_plus) (mT (rotation_part T0))))
           (2 * sin (rotation_angle (mm (rotation_part T_plus) (mT (rotation_part T0)))) * delta) = NonFinite"
proof -
  let ?dR = "mm (rotation_part T_plus) (mT (rotation_part T0))"
  have "trace3 ?dR = 1 + 2 * cos delta" using q i T0 Tp by (rule increment_trace)
  then have "trace3 ?dR = 3" using d by simp
  then have a: "rotation_angle ?dR = 0" by (simp add: rotation_angle_def clip_def)
  show "jacobian_column_finite self q delta p0 (rotation_part T0) i
           = Returned (map (\<lambda>x. x / delta) (vsub (translation_part T_plus) p0) @ [0, 0, 0])"
    using d by (simp add: jacobian_column_finite_def Tp Let_def divide_each_def a)
  show "true_divide (rotation_angle ?dR) (2 * sin (rotation_angle ?dR) * delta) = NonFinite"
    by (simp add: a true_divide_def)
qed

lemma solve_iterations_finite_half_turn:
  assumes e: "0 < epsilon self" "epsilon self \<le> pi"
  shows "solve_iterations_finite self T (Suc n) q =
     (case get_end_effector_transform (fk self) q of
        Inl e \<Rightarrow> Raised e
      | Inr T_c \<Rightarrow>
          if half_turn self T q then NonFinite
          else if converged self T q then Returned (if verify self q T 0.0001 0.005 then Some q else None)
          else case dls_step self T q of
                 Inl e \<Rightarrow> Raised e
               | Inr q' \<Rightarrow> solve_iterations_finite self T n q')"
proof (cases "get_end_effector_transform (fk self) q")
  case (Inl err)
  then show ?thesis by (simp add: solve_iterations_finite_step)
next
  case (Inr T_c)
  have "orientation_error_finite self (rotation_part T) (rotation_part T_c) = NonFinite
          \<longleftrightarrow> half_turn self T q"
    using e by (simp add: orientation_error_finite_NonFinite half_turn_def Inr)
  then have "\<not> rotation_angle (mm (rotation_part T) (mT (rotation_part T_c))) < epsilon self \<and>
             sin (rotation_angle (mm (rotation_part T) (mT (rotation_part T_c)))) = 0
          \<longleftrightarrow> half_turn self T q"
    by (simp add: orientation_error_finite_eq split: if_splits)
  then show ?thesis by (simp add: solve_iterations_finite_step Inr)
qed

lemma solve_iterations_finite_identity:
  assumes q: "length q = 6" and T: "is_mat 4 4 T" and e: "0 < epsilon self"
    and g: "get_end_effector_transform (fk self) q = Inr T_c"
    and o: "mm (rotation_part T) (mT (rotation_part T_c)) = eye 3"
  shows "\<exists>q'. dls_step self T q = Inr q' \<and> length q' = 6 \<and>
           pose_errors self T q = Inr (vsub (translation_part T) (translation_part T_c), [0, 0, 0]) \<and>
           solve_iterations_finite self T (Suc n) q =
             (if converged self T q then Returned (if verify self q T 0.0001 0.005 then Some q else None)
              else solve_iterations_finite self T n q')"
proof -
  obtain q' where s: "dls_step self T q = Inr q'" "length q' = 6"
    using dls_step_shape [OF q T] by blast
  have a: "rotation_angle (mm (rotation_part T) (mT (rotation_part T_c))) < epsilon self"
    using e by (simp add: o rotation_angle_eye)
  have pe: "pose_errors self T q = Inr (vsub (translation_part T) (translation_part T_c), [0, 0, 0])"
    using a by (simp add: pose_errors_def g orientation_error_def Let_def)
  have "solve_iterations_finite self T (Suc n) q =
             (if converged self T q then Returned (if verify self q T 0.0001 0.005 then Some q else None)
              else solve_iterations_finite self T n q')"
    using a by (simp add: solve_iterations_finite_step g s)
  then show ?thesis using s pe by blast
qed

lemma solve_single_finite_at_target:
  assumes g: "get_end_effector_transform (fk self) q = Inr T"
    and e: "0 < epsilon self" and t: "0 < tol self" and m: "0 < max_iter self"
  shows "solve_single_finite self T q = Returned (Some q)"
proof -
  from m obtain n where n: "max_iter self = Suc n" by (cases "max_iter self") simp_all
  note a = at_target [OF g e t]
  have "\<not> (\<not> rotation_angle (mm (rotation_part T) (mT (rotation_part T))) < epsilon self \<and>
           sin (rotation_angle (mm (rotation_part T) (mT (rotation_part T)))) = 0)"
    using e by (simp add: a(1) rotation_angle_eye)
  then show ?thesis
    unfolding solve_single_finite_def n
    using a(3) a(4) by (simp add: solve_iterations_finite_step g)
qed

lemma solve_single_finite_not_raised:
  assumes q: "length q = 6" and T: "is_mat 4 4 T"
  shows "solve_single_finite self T q \<noteq> Raised e"
proof
  assume "solve_single_finite self T q = Raised e"
  then have "solve_iterations self T (max_iter self) q = Inl e"
    using solve_iterations_finite_refines [of self T "max_iter self" q] by (simp add: solve_single_finite_def)
  then show False using solve_iterations_total [OF T q, of self "max_iter self"] by auto
qed

text \<open>
  C7: the guards against a rotation angle near zero, with the outcome of each quotient
  explicit. Where the angle of the rotation error is below \<open>epsilon\<close> the orientation error
  is the zero vector, and where the angle of the incremental rotation is below
  \<open>10\<^sup>-\<^sup>1\<^sup>0\<close> the angular part of the Jacobian column is. In the orientation error:
  where the rotation error is the identity the result is the zero vector, while the quotient
  by \<open>2 sin(angle)\<close> that the guard skips has divisor zero; for a positive \<open>epsilon\<close> a divisor zero is met only at a half turn; a returned
  value is that of \<open>orientation_error\<close>. In the Jacobian: the incremental rotation of a
  joint moved by \<open>delta\<close> has trace \<open>1 + 2 cos(delta)\<close> at every pose, so a column meets a
  divisor zero only for \<open>delta = 0\<close> or \<open>cos(delta) = -1\<close>; at a full turn the guard
  (threshold \<open>10\<^sup>-\<^sup>1\<^sup>0\<close>) returns the zero angular part where the skipped quotient has
  divisor zero; at the \<open>delta\<close> of the code, \<open>10\<^sup>-\<^sup>6\<close>, the Jacobian is that of
  \<open>numerical_jacobian\<close>, exceptions included. In the loop: an iteration meets a divisor zero
  only at a half turn; at an iterate of six angles whose rotation error is the identity the
  orientation error is zero, the update is computed and raises nothing, and the loop returns
  or goes on with the next iterate; started at a pose that reaches the target,
  \<^verbatim>\<open>_solve_single\<close> returns that pose. A value returned with the outcomes explicit is
  the value of \<open>solve_single\<close>; an outcome \<open>NonFinite\<close> comes from an iterate at a half
  turn; for six angles and a 4 by 4 target nothing is raised, and \<^verbatim>\<open>solve_ik\<close> returns a
  list of solutions.
\<close>

theorem degenerate_rotation_guard:
  "(rotation_angle (mm R_d (mT R_c)) < epsilon self \<longrightarrow>
      orientation_error_finite self R_d R_c = Returned [0, 0, 0])
   \<and> (get_end_effector_transform (fk self) (q[i := q ! i + delta]) = Inr T_plus \<and> delta \<noteq> 0 \<and>
      rotation_angle (mm (rotation_part T_plus) (mT R0)) < 0.0000000001 \<longrightarrow>
      jacobian_column_finite self q delta p0 R0 i
        = Returned (map (\<lambda>x. x / delta) (vsub (translation_part T_plus) p0) @ [0, 0, 0]))
   \<and> (0 < epsilon self \<and> mm R_d (mT R_c) = eye 3 \<longrightarrow>
      orientation_error_finite self R_d R_c = Returned [0, 0, 0] \<and>
      true_divide (rotation_angle (mm R_d (mT R_c))) (2 * sin (rotation_angle (mm R_d (mT R_c)))) = NonFinite)
   \<and> (0 < epsilon self \<longrightarrow>
      (orientation_error_finite self R_d R_c = NonFinite
         \<longleftrightarrow> epsilon self \<le> pi \<and> trace3 (mm R_d (mT R_c)) \<le> - 1))
   \<and> (\<forall>dw. orientation_error_finite self R_d R_c = Returned dw \<longrightarrow>
      orientation_error self R_d R_c = dw)
   \<and> (6 \<le> length q \<and> i < 6 \<and> get_end_effector_transform (fk self) q = Inr T0 \<longrightarrow>
      (jacobian_column_finite self q delta p0 (rotation_part T0) i = NonFinite
         \<longleftrightarrow> delta = 0 \<or> cos delta = - 1))
   \<and> (6 \<le> length q \<and> i < 6 \<and> get_end_effector_transform (fk self) q = Inr T0 \<and>
      get_end_effector_transform (fk self) (q[i := q ! i + delta]) = Inr T_plus \<longrightarrow>
      trace3 (mm (rotation_part T_plus) (mT (rotation_part T0))) = 1 + 2 * cos delta)
   \<and> (6 \<le> length q \<and> i < 6 \<and> get_end_effector_transform (fk self) q = Inr T0 \<and>
      get_end_effector_transform (fk self) (q[i := q ! i + delta]) = Inr T_plus \<and>
      delta \<noteq> 0 \<and> cos delta = 1 \<longrightarrow>
      jacobian_column_finite self q delta p0 (rotation_part T0) i
        = Returned (map (\<lambda>x. x / delta) (vsub (translation_part T_plus) p0) @ [0, 0, 0]) \<and>
      true_divide (rotation_angle (mm (rotation_part T_plus) (mT (rotation_part T0))))
        (2 * sin (rotation_angle (mm (rotation_part T_plus) (mT (rotation_part T0)))) * delta) = NonFinite)
   \<and> (numerical_jacobian_finite self q 0.000001 = of_result (numerical_jacobian self q 0.000001))
   \<and> (0 < epsilon self \<and> epsilon self \<le> pi \<longrightarrow>
      solve_iterations_finite self T (Suc n) q =
        (case get_end_effector_transform (fk self) q of
           Inl e \<Rightarrow> Raised e
         | Inr T_c \<Rightarrow>
             if half_turn self T q then NonFinite
             else if converged self T q
               then Returned (if verify self q T 0.0001 0.005 then Some q else None)
             else case dls_step self T q of
                    Inl e \<Rightarrow> Raised e
                  | Inr q' \<Rightarrow> solve_iterations_finite self T n q'))
   \<and> (length q = 6 \<and> is_mat 4 4 T \<and> 0 < epsilon self \<and>
      get_end_effector_transform (fk self) q = Inr T_c \<and>
      mm (rotation_part T) (mT (rotation_part T_c)) = eye 3 \<longrightarrow>
      (\<exists>q'. dls_step self T q = Inr q' \<and> length q' = 6 \<and>
         pose_errors self T q = Inr (vsub (translation_part T) (translation_part T_c), [0, 0, 0]) \<and>
         solve_iterations_finite self T (Suc n) q =
           (if converged self T q
              then Returned (if verify self q T 0.0001 0.005 then Some q else None)
            else solve_iterations_finite self T n q')))
   \<and> (get_end_effector_transform (fk self) q = Inr T \<and> 0 < epsilon self \<and> 0 < tol self \<and>
      0 < max_iter self \<longrightarrow>
      solve_single_finite self T q = Returned (Some q))
   \<and> (\<forall>r. solve_single_finite self T q = Returned r \<longrightarrow> solve_single self T q = Inr r)
   \<and> (0 < epsilon self \<and> solve_single_finite self T q = NonFinite \<longrightarrow>
      (\<exists>k < max_iter self. \<exists>q'. iterate self T k q = Some q' \<and> half_turn self T q'))
   \<and> (length q = 6 \<and> is_mat 4 4 T \<longrightarrow> (\<forall>e. solve_single_finite self T q \<noteq> Raised e))
   \<and> (is_mat 4 4 T \<longrightarrow> (\<exists>sols. solve_ik self sample T = Inr sols))"
proof -
  have g1: "rotation_angle (mm R_d (mT R_c)) < epsilon self \<longrightarrow>
      orientation_error_finite self R_d R_c = Returned [0, 0, 0]"
    by (simp add: orientation_error_finite_def Let_def)
  have g2: "get_end_effector_transform (fk self) (q[i := q ! i + delta]) = Inr T_plus \<and> delta \<noteq> 0 \<and>
      rotation_angle (mm (rotation_part T_plus) (mT R0)) < 0.0000000001 \<longrightarrow>
      jacobian_column_finite self q delta p0 R0 i
        = Returned (map (\<lambda>x. x / delta) (vsub (translation_part T_plus) p0) @ [0, 0, 0])"
    by (simp add: jacobian_column_finite_def divide_each_def Let_def)
  have c1: "0 < epsilon self \<and> mm R_d (mT R_c) = eye 3 \<longrightarrow>
      orientation_error_finite self R_d R_c = Returned [0, 0, 0] \<and>
      true_divide (rotation_angle (mm R_d (mT R_c))) (2 * sin (rotation_angle (mm R_d (mT R_c)))) = NonFinite"
    using orientation_error_finite_identity [where self = self and R_d = R_d and R_c = R_c] by blast
  have c2: "0 < epsilon self \<longrightarrow>
      (orientation_error_finite self R_d R_c = NonFinite
         \<longleftrightarrow> epsilon self \<le> pi \<and> trace3 (mm R_d (mT R_c)) \<le> - 1)"
    using orientation_error_finite_NonFinite [of self R_d R_c] by blast
  have c3: "\<forall>dw. orientation_error_finite self R_d R_c = Returned dw \<longrightarrow>
      orientation_error self R_d R_c = dw"
    using orientation_error_finite_refines [of self R_d R_c] by blast
  have c4: "6 \<le> length q \<and> i < 6 \<and> get_end_effector_transform (fk self) q = Inr T0 \<longrightarrow>
      (jacobian_column_finite self q delta p0 (rotation_part T0) i = NonFinite
         \<longleftrightarrow> delta = 0 \<or> cos delta = - 1)"
    using jacobian_column_finite_NonFinite [of q i self T0 delta p0] by blast
  have c5: "6 \<le> length q \<and> i < 6 \<and> get_end_effector_transform (fk self) q = Inr T0 \<and>
      get_end_effector_transform (fk self) (q[i := q ! i + delta]) = Inr T_plus \<longrightarrow>
      trace3 (mm (rotation_part T_plus) (mT (rotation_part T0))) = 1 + 2 * cos delta"
    using increment_trace [of q i "fk self" T0 delta T_plus] by blast
  have c6: "6 \<le> length q \<and> i < 6 \<and> get_end_effector_transform (fk self) q = Inr T0 \<and>
      get_end_effector_transform (fk self) (q[i := q ! i + delta]) = Inr T_plus \<and>
      delta \<noteq> 0 \<and> cos delta = 1 \<longrightarrow>
      jacobian_column_finite self q delta p0 (rotation_part T0) i
        = Returned (map (\<lambda>x. x / delta) (vsub (translation_part T_plus) p0) @ [0, 0, 0]) \<and>
      true_divide (rotation_angle (mm (rotation_part T_plus) (mT (rotation_part T0))))
        (2 * sin (rotation_angle (mm (rotation_part T_plus) (mT (rotation_part T0)))) * delta) = NonFinite"
    using jacobian_column_finite_full_turn [where q = q and i = i and self = self and ?T0.0 = T0 and delta = delta and T_plus = T_plus] by blast
  have c7: "numerical_jacobian_finite self q 0.000001 = of_result (numerical_jacobian self q 0.000001)"
    by (rule numerical_jacobian_finite_code)
  have c8: "0 < epsilon self \<and> epsilon self \<le> pi \<longrightarrow>
      solve_iterations_finite self T (Suc n) q =
        (case get_end_effector_transform (fk self) q of
           Inl e \<Rightarrow> Raised e
         | Inr T_c \<Rightarrow>
             if half_turn self T q then NonFinite
             else if converged self T q
               then Returned (if verify self q T 0.0001 0.005 then Some q else None)
             else case dls_step self T q of
                    Inl e \<Rightarrow> Raised e
                  | Inr q' \<Rightarrow> solve_iterations_finite self T n q')"
    using solve_iterations_finite_half_turn [of self T n q] by blast
  have c9: "length q = 6 \<and> is_mat 4 4 T \<and> 0 < epsilon self \<and>
      get_end_effector_transform (fk self) q = Inr T_c \<and>
      mm (rotation_part T) (mT (rotation_part T_c)) = eye 3 \<longrightarrow>
      (\<exists>q'. dls_step self T q = Inr q' \<and> length q' = 6 \<and>
         pose_errors self T q = Inr (vsub (translation_part T) (translation_part T_c), [0, 0, 0]) \<and>
         solve_iterations_finite self T (Suc n) q =
           (if converged self T q
              then Returned (if verify self q T 0.0001 0.005 then Some q else None)
            else solve_iterations_finite self T n q'))"
    using solve_iterations_finite_identity [of q T self T_c n] by blast
  have c10: "get_end_effector_transform (fk self) q = Inr T \<and> 0 < epsilon self \<and> 0 < tol self \<and>
      0 < max_iter self \<longrightarrow>
      solve_single_finite self T q = Returned (Some q)"
    using solve_single_finite_at_target [of self q T] by blast
  have c11: "\<forall>r. solve_single_finite self T q = Returned r \<longrightarrow> solve_single self T q = Inr r"
    using solve_iterations_finite_refines [of self T "max_iter self" q] by (simp add: solve_single_finite_def solve_single_def)
  have c12: "0 < epsilon self \<and> solve_single_finite self T q = NonFinite \<longrightarrow>
      (\<exists>k < max_iter self. \<exists>q'. iterate self T k q = Some q' \<and> half_turn self T q')"
    using solve_iterations_finite_NonFinite [of self T "max_iter self" q] by (simp add: solve_single_finite_def)
  have c13: "length q = 6 \<and> is_mat 4 4 T \<longrightarrow> (\<forall>e. solve_single_finite self T q \<noteq> Raised e)"
    using solve_single_finite_not_raised [of q T self] by blast
  have c14: "is_mat 4 4 T \<longrightarrow> (\<exists>sols. solve_ik self sample T = Inr sols)"
    using solve_ik_total [of T self sample] by blast
  show ?thesis
    by (intro conjI) (rule g1, rule g2, rule c1, rule c2, rule c3, rule c4, rule c5, rule c6, rule c7, rule c8, rule c9, rule c10, rule c11, rule c12, rule c13, rule c14)
qed

theorem degenerate_rotation_guard_witness:
  "orientation_error_finite UR3_InverseKinematics [[- 1, 0, 0], [0, 1, 0], [0, 0, - 1]] [[- 1, 0, 0], [0, 1, 0], [0, 0, - 1]] = Returned [0, 0, 0]
   \<and> true_divide (rotation_angle (mm [[- 1, 0, 0], [0, 1, 0], [0, 0, - 1]] (mT [[- 1, 0, 0], [0, 1, 0], [0, 0, - 1]]))) (2 * sin (rotation_angle (mm [[- 1, 0, 0], [0, 1, 0], [0, 0, - 1]] (mT [[- 1, 0, 0], [0, 1, 0], [0, 0, - 1]])))) = NonFinite
   \<and> orientation_error_finite UR3_InverseKinematics (eye 3) [[- 1, 0, 0], [0, 1, 0], [0, 0, - 1]] = NonFinite
   \<and> jacobian_column_finite UR3_InverseKinematics [0, 0, 0, 0, 0, 0] 0.000001 [0.4569, 0.11235, 0.06655] [[- 1, 0, 0], [0, 1, 0], [0, 0, - 1]] 5 \<noteq> NonFinite
   \<and> jacobian_column_finite UR3_InverseKinematics [0, 0, 0, 0, 0, 0] (2 * pi) [0.4569, 0.11235, 0.06655] [[- 1, 0, 0], [0, 1, 0], [0, 0, - 1]] 5
     = Returned (map (\<lambda>x. x / (2 * pi)) (vsub [0.4569, 0.11235, 0.06655] [0.4569, 0.11235, 0.06655]) @ [0, 0, 0])
   \<and> true_divide (rotation_angle (mm [[- 1, 0, 0], [0, 1, 0], [0, 0, - 1]] (mT [[- 1, 0, 0], [0, 1, 0], [0, 0, - 1]]))) (2 * sin (rotation_angle (mm [[- 1, 0, 0], [0, 1, 0], [0, 0, - 1]] (mT [[- 1, 0, 0], [0, 1, 0], [0, 0, - 1]]))) * (2 * pi)) = NonFinite
   \<and> (\<exists>J. numerical_jacobian_finite UR3_InverseKinematics [0, 0, 0, 0, 0, 0] 0.000001 = Returned J \<and> is_mat 6 6 J)
   \<and> (\<exists>q'. dls_step UR3_InverseKinematics [[- 1, 0, 0, 0.3569], [0, 1, 0, 0.11235], [0, 0, - 1, 0.06655], [0, 0, 0, 1]] [0, 0, 0, 0, 0, 0] = Inr q' \<and> length q' = 6 \<and>
      solve_iterations_finite UR3_InverseKinematics [[- 1, 0, 0, 0.3569], [0, 1, 0, 0.11235], [0, 0, - 1, 0.06655], [0, 0, 0, 1]] 200 [0, 0, 0, 0, 0, 0] = solve_iterations_finite UR3_InverseKinematics [[- 1, 0, 0, 0.3569], [0, 1, 0, 0.11235], [0, 0, - 1, 0.06655], [0, 0, 0, 1]] 199 q')
   \<and> solve_single_finite UR3_InverseKinematics [[- 1, 0, 0, 0.4569], [0, 1, 0, 0.11235], [0, 0, - 1, 0.06655], [0, 0, 0, 1]] [0, 0, 0, 0, 0, 0] = Returned (Some [0, 0, 0, 0, 0, 0])
   \<and> solve_single UR3_InverseKinematics [[- 1, 0, 0, 0.4569], [0, 1, 0, 0.11235], [0, 0, - 1, 0.06655], [0, 0, 0, 1]] [0, 0, 0, 0, 0, 0] = Inr (Some [0, 0, 0, 0, 0, 0])
   \<and> solve_single_finite UR3_InverseKinematics (eye 4) [0, 0, 0, 0, 0, 0] = NonFinite
   \<and> (\<exists>k < 200. \<exists>q'. iterate UR3_InverseKinematics (eye 4) k [0, 0, 0, 0, 0, 0] = Some q' \<and> half_turn UR3_InverseKinematics (eye 4) q')
   \<and> (\<forall>e. solve_single_finite UR3_InverseKinematics [[- 1, 0, 0, 0.3569], [0, 1, 0, 0.11235], [0, 0, - 1, 0.06655], [0, 0, 0, 1]] [0, 0, 0, 0, 0, 0] \<noteq> Raised e)
   \<and> (\<exists>sols. solve_ik UR3_InverseKinematics (\<lambda>k. 0) [[- 1, 0, 0, 0.4569], [0, 1, 0, 0.11235], [0, 0, - 1, 0.06655], [0, 0, 0, 1]] = Inr sols)"
proof -
  let ?S = UR3_InverseKinematics
  let ?T = "[[- 1, 0, 0, 0.4569], [0, 1, 0, 0.11235], [0, 0, - 1, 0.06655], [0, 0, 0, 1]] :: mat"
  let ?T2 = "[[- 1, 0, 0, 0.3569], [0, 1, 0, 0.11235], [0, 0, - 1, 0.06655], [0, 0, 0, 1]] :: mat"
  let ?R = "[[- 1, 0, 0], [0, 1, 0], [0, 0, - 1]] :: mat"
  let ?q = "[0, 0, 0, 0, 0, 0] :: vec"
  let ?p = "[0.4569, 0.11235, 0.06655] :: vec"
  have S: "0 < epsilon ?S" "epsilon ?S \<le> pi" "0 < tol ?S" "0 < max_iter ?S" "max_iter ?S = Suc 199"
    "fk ?S = UR3_URDF_ForwardKinematics"
    using pi_ge_two by (simp_all add: UR3_InverseKinematics_def)
  have gh: "get_end_effector_transform (fk ?S) ?q = Inr ?T"
    by (simp only: S(6) get_end_effector_transform_home)
  have gt: "get_end_effector_transform (fk ?S) (?q[5 := ?q ! 5 + 2 * pi]) = Inr ?T"
  proof -
    have "?q[5 := ?q ! 5 + 2 * pi] = [0, 0, 0, 0, 0, 2 * pi]" by (simp add: numeral_eq_Suc)
    then show ?thesis by (simp only: S(6) get_end_effector_transform_full_turn)
  qed
  have rT: "rotation_part ?T = ?R" "rotation_part ?T2 = ?R" "translation_part ?T = ?p"
    "translation_part ?T2 = [0.3569, 0.11235, 0.06655]"
    by (simp_all add: rotation_part_def translation_part_def)
  have mT: "is_mat 4 4 ?T" "is_mat 4 4 ?T2" by (simp_all add: is_mat_def)
  have RR: "mm ?R (mT ?R) = eye 3" by (simp add: mm_3_3 mT_3_3 eye_3)
  have lq: "length ?q = 6" "6 \<le> length ?q" "(5::nat) < 6" by simp_all
  note a = degenerate_rotation_guard [where self = ?S and R_d = ?R and R_c = ?R and q = ?q and i = 5 and delta = "0.000001"
      and ?T0.0 = ?T and ?p0.0 = ?p and T = ?T and sample = "\<lambda>k. 0"]
  note b = degenerate_rotation_guard [where self = ?S and R_d = "eye 3" and R_c = ?R and q = ?q and i = 5 and delta = "2 * pi"
      and ?T0.0 = ?T and T_plus = ?T and ?p0.0 = ?p and T = "eye 4" and n = 199]
  note c = degenerate_rotation_guard [where self = ?S and q = ?q and T = ?T2 and T_c = ?T and n = 199]
  note g = degenerate_rotation_guard [where self = ?S and q = ?q and i = 5 and delta = "2 * pi" and T_plus = ?T
      and ?R0.0 = "rotation_part ?T" and ?p0.0 = ?p]
  have a0: "rotation_angle (mm ?R (mT ?R)) < epsilon ?S"
    using S(1) by (simp only: RR rotation_angle_eye)
  have w0: "orientation_error_finite ?S ?R ?R = Returned [0, 0, 0]"
    by (rule mp [OF a [THEN conjunct1] a0])
  have w1: "orientation_error_finite ?S ?R ?R = Returned [0, 0, 0] \<and>
      true_divide (rotation_angle (mm ?R (mT ?R))) (2 * sin (rotation_angle (mm ?R (mT ?R)))) = NonFinite"
    by (rule mp [OF a [THEN conjunct2, THEN conjunct2, THEN conjunct1] conjI [OF S(1) RR]])
  have t3: "epsilon ?S \<le> pi \<and> trace3 (mm (eye 3) (mT ?R)) \<le> - 1"
    using S(2) by (simp add: mm_3_3 mT_3_3 eye_3 trace3_def)
  have w3: "orientation_error_finite ?S (eye 3) ?R = NonFinite"
    by (rule iffD2 [OF mp [OF b [THEN conjunct2, THEN conjunct2, THEN conjunct2, THEN conjunct1] S(1)] t3])
  have h4: "6 \<le> length ?q \<and> (5::nat) < 6 \<and> get_end_effector_transform (fk ?S) ?q = Inr ?T"
    using lq gh by (intro conjI)
  have "jacobian_column_finite ?S ?q 0.000001 ?p (rotation_part ?T) 5 = NonFinite
          \<longleftrightarrow> (0.000001 :: real) = 0 \<or> cos (0.000001 :: real) = - 1"
    by (rule mp [OF a [THEN conjunct2, THEN conjunct2, THEN conjunct2, THEN conjunct2, THEN conjunct2, THEN conjunct1] h4])
  then have "jacobian_column_finite ?S ?q 0.000001 ?p (rotation_part ?T) 5 \<noteq> NonFinite"
    using delta_regular by blast
  then have w4: "jacobian_column_finite ?S ?q 0.000001 ?p ?R 5 \<noteq> NonFinite"
    unfolding rT .
  have h5: "6 \<le> length ?q \<and> (5::nat) < 6 \<and> get_end_effector_transform (fk ?S) ?q = Inr ?T \<and>
      get_end_effector_transform (fk ?S) (?q[5 := ?q ! 5 + 2 * pi]) = Inr ?T \<and>
      2 * pi \<noteq> 0 \<and> cos (2 * pi) = 1"
    using lq gh gt by (intro conjI) simp_all
  have a5: "rotation_angle (mm (rotation_part ?T) (mT (rotation_part ?T))) < 0.0000000001"
    unfolding rT by (simp only: RR rotation_angle_eye) simp
  have h5g: "get_end_effector_transform (fk ?S) (?q[5 := ?q ! 5 + 2 * pi]) = Inr ?T \<and> 2 * pi \<noteq> 0 \<and>
      rotation_angle (mm (rotation_part ?T) (mT (rotation_part ?T))) < 0.0000000001"
    using gt a5 by (intro conjI) simp_all
  have "true_divide (rotation_angle (mm (rotation_part ?T) (mT (rotation_part ?T))))
        (2 * sin (rotation_angle (mm (rotation_part ?T) (mT (rotation_part ?T)))) * (2 * pi)) = NonFinite"
    by (rule conjunct2 [OF mp [OF b [THEN conjunct2, THEN conjunct2, THEN conjunct2, THEN conjunct2, THEN conjunct2, THEN conjunct2, THEN conjunct2, THEN conjunct1] h5]])
  then have w5b: "true_divide (rotation_angle (mm ?R (mT ?R)))
        (2 * sin (rotation_angle (mm ?R (mT ?R))) * (2 * pi)) = NonFinite"
    unfolding rT .
  have "jacobian_column_finite ?S ?q (2 * pi) ?p (rotation_part ?T) 5
        = Returned (map (\<lambda>x. x / (2 * pi)) (vsub (translation_part ?T) ?p) @ [0, 0, 0])"
    by (rule mp [OF g [THEN conjunct2, THEN conjunct1] h5g])
  then have w5: "jacobian_column_finite ?S ?q (2 * pi) ?p ?R 5
        = Returned (map (\<lambda>x. x / (2 * pi)) (vsub ?p ?p) @ [0, 0, 0])"
    unfolding rT .
  obtain J where J: "numerical_jacobian ?S ?q 0.000001 = Inr J" "is_mat 6 6 J"
    using numerical_jacobian_shape [OF lq(2), of ?S "0.000001"] by blast
  have "numerical_jacobian_finite ?S ?q 0.000001 = of_result (numerical_jacobian ?S ?q 0.000001)"
    by (rule a [THEN conjunct2, THEN conjunct2, THEN conjunct2, THEN conjunct2, THEN conjunct2, THEN conjunct2, THEN conjunct2, THEN conjunct2, THEN conjunct1])
  then have "numerical_jacobian_finite ?S ?q 0.000001 = Returned J"
    by (simp only: J(1) of_result_simps)
  then have w6: "\<exists>J. numerical_jacobian_finite ?S ?q 0.000001 = Returned J \<and> is_mat 6 6 J"
    using J(2) by blast
  have o7: "mm (rotation_part ?T2) (mT (rotation_part ?T)) = eye 3" by (simp only: rT RR)
  have h7: "length ?q = 6 \<and> is_mat 4 4 ?T2 \<and> 0 < epsilon ?S \<and>
      get_end_effector_transform (fk ?S) ?q = Inr ?T \<and>
      mm (rotation_part ?T2) (mT (rotation_part ?T)) = eye 3"
    using lq(1) mT(2) S(1) gh o7 by (intro conjI)
  from mp [OF c [THEN conjunct2, THEN conjunct2, THEN conjunct2, THEN conjunct2, THEN conjunct2, THEN conjunct2, THEN conjunct2, THEN conjunct2, THEN conjunct2, THEN conjunct2, THEN conjunct1] h7] obtain q' where q': "dls_step ?S ?T2 ?q = Inr q'" "length q' = 6"
    and pe: "pose_errors ?S ?T2 ?q = Inr (vsub (translation_part ?T2) (translation_part ?T), [0, 0, 0])"
    and st: "solve_iterations_finite ?S ?T2 (Suc 199) ?q =
           (if converged ?S ?T2 ?q
              then Returned (if verify ?S ?q ?T2 0.0001 0.005 then Some ?q else None)
            else solve_iterations_finite ?S ?T2 199 q')"
    by (elim exE conjE)
  have sq: "sqrt (1 / 100) = 1 / (10 :: real)"
    by (rule real_sqrt_unique) (simp_all add: power2_eq_square)
  have nm: "norm2 (vsub (translation_part ?T2) (translation_part ?T)) = 1 / 10"
    by (simp add: translation_part_def vsub_def norm2_def sq)
  have "\<not> norm2 (vsub (translation_part ?T2) (translation_part ?T)) < tol ?S"
    unfolding nm by (simp add: UR3_InverseKinematics_def)
  then have nc: "\<not> converged ?S ?T2 ?q"
    unfolding converged_def pe by simp
  have "solve_iterations_finite ?S ?T2 (Suc 199) ?q = solve_iterations_finite ?S ?T2 199 q'"
    using st nc by simp
  then have "solve_iterations_finite ?S ?T2 200 ?q = solve_iterations_finite ?S ?T2 199 q'"
    by simp
  then have w7: "\<exists>q'. dls_step ?S ?T2 ?q = Inr q' \<and> length q' = 6 \<and>
      solve_iterations_finite ?S ?T2 200 ?q = solve_iterations_finite ?S ?T2 199 q'"
    using q' by blast
  have h8: "get_end_effector_transform (fk ?S) ?q = Inr ?T \<and> 0 < epsilon ?S \<and> 0 < tol ?S \<and>
      0 < max_iter ?S"
    using gh S(1) S(3) S(4) by (intro conjI)
  have w8: "solve_single_finite ?S ?T ?q = Returned (Some ?q)"
    by (rule mp [OF a [THEN conjunct2, THEN conjunct2, THEN conjunct2, THEN conjunct2, THEN conjunct2, THEN conjunct2, THEN conjunct2, THEN conjunct2, THEN conjunct2, THEN conjunct2, THEN conjunct2, THEN conjunct1] h8])
  have w9: "solve_single ?S ?T ?q = Inr (Some ?q)"
    by (rule mp [OF spec [OF a [THEN conjunct2, THEN conjunct2, THEN conjunct2, THEN conjunct2, THEN conjunct2, THEN conjunct2, THEN conjunct2, THEN conjunct2, THEN conjunct2, THEN conjunct2, THEN conjunct2, THEN conjunct2, THEN conjunct1]] w8])
  have ht: "half_turn ?S (eye 4) ?q"
    by (simp add: half_turn_def gh rotation_part_eye rotation_part_4_4 mm_3_3 mT_3_3 eye_3 trace3_def)
  have "solve_iterations_finite ?S (eye 4) (Suc 199) ?q =
        (case get_end_effector_transform (fk ?S) ?q of
           Inl e \<Rightarrow> Raised e
         | Inr T_c \<Rightarrow>
             if half_turn ?S (eye 4) ?q then NonFinite
             else if converged ?S (eye 4) ?q
               then Returned (if verify ?S ?q (eye 4) 0.0001 0.005 then Some ?q else None)
             else case dls_step ?S (eye 4) ?q of
                    Inl e \<Rightarrow> Raised e
                  | Inr q' \<Rightarrow> solve_iterations_finite ?S (eye 4) 199 q')"
    by (rule mp [OF b [THEN conjunct2, THEN conjunct2, THEN conjunct2, THEN conjunct2, THEN conjunct2, THEN conjunct2, THEN conjunct2, THEN conjunct2, THEN conjunct2, THEN conjunct1] conjI [OF S(1) S(2)]])
  then have "solve_iterations_finite ?S (eye 4) (Suc 199) ?q = NonFinite"
    by (simp add: gh ht)
  then have w10: "solve_single_finite ?S (eye 4) ?q = NonFinite"
    by (simp only: solve_single_finite_def S(5))
  have "\<exists>k < max_iter ?S. \<exists>q'. iterate ?S (eye 4) k ?q = Some q' \<and> half_turn ?S (eye 4) q'"
    by (rule mp [OF b [THEN conjunct2, THEN conjunct2, THEN conjunct2, THEN conjunct2, THEN conjunct2, THEN conjunct2, THEN conjunct2, THEN conjunct2, THEN conjunct2, THEN conjunct2, THEN conjunct2, THEN conjunct2, THEN conjunct2, THEN conjunct1] conjI [OF S(1) w10]])
  then have w11: "\<exists>k < 200. \<exists>q'. iterate ?S (eye 4) k ?q = Some q' \<and> half_turn ?S (eye 4) q'"
    by (simp add: S(5))
  have w12: "\<forall>e. solve_single_finite ?S ?T2 ?q \<noteq> Raised e"
    by (rule mp [OF c [THEN conjunct2, THEN conjunct2, THEN conjunct2, THEN conjunct2, THEN conjunct2, THEN conjunct2, THEN conjunct2, THEN conjunct2, THEN conjunct2, THEN conjunct2, THEN conjunct2, THEN conjunct2, THEN conjunct2, THEN conjunct2, THEN conjunct1] conjI [OF lq(1) mT(2)]])
  have w13: "\<exists>sols. solve_ik ?S (\<lambda>k. 0) ?T = Inr sols"
    by (rule mp [OF a [THEN conjunct2, THEN conjunct2, THEN conjunct2, THEN conjunct2, THEN conjunct2, THEN conjunct2, THEN conjunct2, THEN conjunct2, THEN conjunct2, THEN conjunct2, THEN conjunct2, THEN conjunct2, THEN conjunct2, THEN conjunct2, THEN conjunct2] mT(1)])
  show ?thesis
    by (intro conjI) (rule w0, rule conjunct2 [OF w1], rule w3, rule w4, rule w5, rule w5b, rule w6,
        rule w7, rule w8, rule w9, rule w10, rule w11, rule w12, rule w13)
qed

section \<open>The seeds\<close>

lemma random_seeds_eq:
  "random_seeds sample pos n =
     map (\<lambda>i. map (\<lambda>j. - pi + (pi - (- pi)) * sample (pos + 6 * i + j)) [0..<6]) [0..<n]"
proof (induction n arbitrary: pos)
  case 0
  show ?case by simp
next
  case (Suc n)
  have "random_seeds sample pos (Suc n) =
      map (\<lambda>j. - pi + (pi - (- pi)) * sample (pos + j)) [0..<6] # random_seeds sample (pos + 6) n"
    by (simp add: uniform_def)
  also have "random_seeds sample (pos + 6) n =
      map (\<lambda>i. map (\<lambda>j. - pi + (pi - (- pi)) * sample (pos + 6 + 6 * i + j)) [0..<6]) [0..<n]"
    by (rule Suc.IH)
  also have "\<dots> = map (\<lambda>i. map (\<lambda>j. - pi + (pi - (- pi)) * sample (pos + 6 * Suc i + j)) [0..<6]) [0..<n]"
    by (simp add: add.assoc add.commute)
  finally show ?case
    by (simp only: map_upt_Suc [where n = n]) simp
qed

lemma random_seeds_cong:
  "(\<forall>k < 6 * n. sample k = sample' k) \<Longrightarrow> random_seeds sample 0 n = random_seeds sample' 0 n"
proof -
  assume a: "\<forall>k < 6 * n. sample k = sample' k"
  have "sample (6 * i + j) = sample' (6 * i + j)" if "i < n" "j < 6" for i j
  proof -
    have "6 * i + j < 6 * n" using that by simp
    then show ?thesis using a by blast
  qed
  then show ?thesis
    by (simp add: random_seeds_eq)
qed

lemma generate_seeds_cong:
  "(\<forall>k < 144. sample k = sample' k) \<Longrightarrow> generate_seeds sample = generate_seeds sample'"
  using random_seeds_cong [of 24 sample sample'] by (simp add: generate_seeds_def)

lemma random_seed_range:
  assumes u: "0 \<le> u" "u < 1"
  shows "- pi \<le> - pi + (pi - (- pi)) * u \<and> - pi + (pi - (- pi)) * u < pi"
proof -
  have "0 \<le> 2 * pi * u" using u pi_gt_zero by simp
  moreover have "2 * pi * u < 2 * pi * 1" using u pi_gt_zero by (intro mult_strict_left_mono) simp_all
  ultimately show ?thesis by (simp add: algebra_simps)
qed

lemma draw_seeds_eq:
  "rng < length (generators st) \<Longrightarrow> generators st ! rng = (seed, pos) \<Longrightarrow>
   draw_seeds stream rng n st =
     (random_seeds (stream seed) pos n, st\<lparr>generators := (generators st)[rng := (seed, pos + 6 * n)]\<rparr>)"
proof (induction n arbitrary: st pos)
  case 0
  then have "(generators st)[rng := (seed, pos)] = generators st"
    by (metis list_update_id)
  then show ?case by simp
next
  case (Suc n)
  let ?st' = "st\<lparr>generators := (generators st)[rng := (seed, pos + 6)]\<rparr>"
  have u: "rng_uniform stream rng (- pi) pi 6 st = (fst (uniform (stream seed) pos (- pi) pi 6), ?st')"
    using Suc.prems by (simp add: rng_uniform_def uniform_def)
  have l: "rng < length (generators ?st')" using Suc.prems by simp
  have g: "generators ?st' ! rng = (seed, pos + 6)" using Suc.prems by simp
  have r: "draw_seeds stream rng n ?st' =
     (random_seeds (stream seed) (pos + 6) n,
      ?st'\<lparr>generators := (generators ?st')[rng := (seed, pos + 6 + 6 * n)]\<rparr>)"
    using l g by (rule Suc.IH)
  have p: "snd (uniform (stream seed) pos (- pi) pi 6) = pos + 6" by (simp add: uniform_def)
  show ?case
    using p by (simp add: u r case_prod_beta algebra_simps)
qed

lemma generate_seeds_in_eq:
  "generate_seeds_in stream st =
     (generate_seeds (stream 42), st\<lparr>generators := generators st @ [(42, 144)]\<rparr>)"
proof -
  let ?st1 = "st\<lparr>generators := generators st @ [(42, 0)]\<rparr>"
  let ?rng = "length (generators st)"
  have l: "?rng < length (generators ?st1)" by simp
  have g: "generators ?st1 ! ?rng = (42, 0)" by simp
  have "draw_seeds stream ?rng 24 ?st1 =
     (random_seeds (stream 42) 0 24, ?st1\<lparr>generators := (generators ?st1)[?rng := (42, 0 + 6 * 24)]\<rparr>)"
    using l g by (rule draw_seeds_eq)
  then show ?thesis
    by (simp add: generate_seeds_in_def RandomState_def generate_seeds_def)
qed

lemma solve_ik_in_eq:
  "solve_ik_in self stream T st =
     (solve_ik self (stream 42) T, st\<lparr>generators := generators st @ [(42, 144)]\<rparr>)"
  by (simp add: solve_ik_in_def generate_seeds_in_eq solve_ik_def)

lemma forward_kinematics_reads:
  assumes q: "take 6 q' = take 6 q" and l: "6 \<le> length q"
    and f: "d1 f' = d1 f" "shoulder_offset f' = shoulder_offset f" "elbow_offset f' = elbow_offset f"
      "upper_arm_length f' = upper_arm_length f" "forearm_length f' = forearm_length f"
      "wrist_1_length f' = wrist_1_length f" "wrist_2_length f' = wrist_2_length f"
  shows "forward_kinematics f' q' = forward_kinematics f q"
proof -
  have "length (take 6 q') = 6" using q l by simp
  then have l': "6 \<le> length q'" by simp
  have n: "q' ! k = q ! k" if "k < 6" for k
  proof -
    have "take 6 q' ! k = take 6 q ! k" using q by simp
    then show ?thesis using that by simp
  qed
  have "q' ! 0 = q ! 0" "q' ! 1 = q ! 1" "q' ! 2 = q ! 2" "q' ! 3 = q ! 3" "q' ! 4 = q ! 4" "q' ! 5 = q ! 5"
    by (simp_all add: n)
  then show ?thesis
    using l l' f by (simp add: forward_kinematics_def)
qed

text \<open>
  C8: a call of \<^verbatim>\<open>solve_ik\<close> in any store of generator objects returns what the
  seeds of a fresh generator seeded with 42 give, and leaves the store with one more generator,
  moved by 144 values. So the result is the same in every store; of two calls one after the
  other, the second in the store the first has left (a different store), both return the same
  ordered solutions; and the result depends on the stream of seed 42 through its first 144
  values only. The battery has 32 entries, the eight structured configurations first and then
  24 seeds that are \<open>-\<pi> + 2\<pi>u\<close> for these 144 values \<open>u\<close>, each in the half-open
  interval from \<open>-\<pi>\<close> to \<open>\<pi>\<close> when the values are in the unit interval. The forward
  kinematics reads the first six angles and seven lengths of the robot and nothing else, so
  two calls that agree on these return the same poses. The last part shows what the fresh
  generator is needed for: 24 draws from a generator that exists already continue its stream
  at its position, and do not repeat the values drawn before.
\<close>

theorem seed_battery_fixed:
  "solve_ik_in self stream T st
     = (solve_ik self (stream 42) T, st\<lparr>generators := generators st @ [(42, 144)]\<rparr>)
   \<and> fst (solve_ik_in self stream T st') = fst (solve_ik_in self stream T st)
   \<and> (\<forall>r1 st1 r2 st2.
         solve_ik_in self stream T st = (r1, st1) \<and> solve_ik_in self stream T st1 = (r2, st2) \<longrightarrow>
         r1 = r2 \<and> generators st1 \<noteq> generators st)
   \<and> ((\<forall>k < 144. stream 42 k = stream' 42 k) \<longrightarrow>
         fst (solve_ik_in self stream' T st') = fst (solve_ik_in self stream T st))
   \<and> fst (generate_seeds_in stream st)
       = configs @ map (\<lambda>i. map (\<lambda>j. - pi + (pi - (- pi)) * stream 42 (6 * i + j)) [0..<6]) [0..<24]
   \<and> length (fst (generate_seeds_in stream st)) = 32
   \<and> ((\<forall>k < 144. 0 \<le> stream 42 k \<and> stream 42 k < 1) \<longrightarrow>
         (\<forall>s \<in> set (drop 8 (fst (generate_seeds_in stream st))). \<forall>a \<in> set s. - pi \<le> a \<and> a < pi))
   \<and> (take 6 q' = take 6 q \<and> 6 \<le> length q \<and>
        d1 f' = d1 f \<and> shoulder_offset f' = shoulder_offset f \<and> elbow_offset f' = elbow_offset f \<and>
        upper_arm_length f' = upper_arm_length f \<and> forearm_length f' = forearm_length f \<and>
        wrist_1_length f' = wrist_1_length f \<and> wrist_2_length f' = wrist_2_length f \<longrightarrow>
        forward_kinematics f' q' = forward_kinematics f q)
   \<and> (rng < length (generators st) \<and> generators st ! rng = (seed, pos) \<longrightarrow>
        draw_seeds stream rng 24 st
          = (map (\<lambda>i. map (\<lambda>j. - pi + (pi - (- pi)) * stream seed (pos + 6 * i + j)) [0..<6]) [0..<24],
             st\<lparr>generators := (generators st)[rng := (seed, pos + 144)]\<rparr>))"
proof -
  have a: "solve_ik_in self stream T st
     = (solve_ik self (stream 42) T, st\<lparr>generators := generators st @ [(42, 144)]\<rparr>)"
    by (rule solve_ik_in_eq)
  have b: "fst (solve_ik_in self stream T st') = fst (solve_ik_in self stream T st)"
    by (simp add: solve_ik_in_eq)
  have c: "r1 = r2 \<and> generators st1 \<noteq> generators st"
    if "solve_ik_in self stream T st = (r1, st1) \<and> solve_ik_in self stream T st1 = (r2, st2)"
    for r1 st1 r2 st2
    using that by (auto simp: solve_ik_in_eq)
  have d: "fst (solve_ik_in self stream' T st') = fst (solve_ik_in self stream T st)"
    if "\<forall>k < 144. stream 42 k = stream' 42 k"
  proof -
    have "generate_seeds (stream 42) = generate_seeds (stream' 42)"
      using that by (rule generate_seeds_cong)
    then show ?thesis by (simp add: solve_ik_in_eq solve_ik_def)
  qed
  have e: "fst (generate_seeds_in stream st)
       = configs @ map (\<lambda>i. map (\<lambda>j. - pi + (pi - (- pi)) * stream 42 (6 * i + j)) [0..<6]) [0..<24]"
    using random_seeds_eq [of "stream 42" 0 24] by (simp add: generate_seeds_in_eq generate_seeds_def)
  have l: "length (fst (generate_seeds_in stream st)) = 32"
    using generate_seeds_shape [of "stream 42"] by (simp add: generate_seeds_in_eq)
  have dr: "drop 8 (fst (generate_seeds_in stream st))
       = map (\<lambda>i. map (\<lambda>j. - pi + (pi - (- pi)) * stream 42 (6 * i + j)) [0..<6]) [0..<24]"
    unfolding e by (simp add: configs_def)
  have r: "- pi \<le> a \<and> a < pi"
    if u: "\<forall>k < 144. 0 \<le> stream 42 k \<and> stream 42 k < 1"
      and s: "s \<in> set (drop 8 (fst (generate_seeds_in stream st)))" and m: "a \<in> set s" for s a
  proof -
    from s obtain i where i: "i < 24"
      and se: "s = map (\<lambda>j. - pi + (pi - (- pi)) * stream 42 (6 * i + j)) [0..<6]"
      unfolding dr by auto
    from m se obtain j where j: "j < 6" and ae: "a = - pi + (pi - (- pi)) * stream 42 (6 * i + j)"
      by auto
    have "6 * i + j < 144" using i j by simp
    then have "0 \<le> stream 42 (6 * i + j)" "stream 42 (6 * i + j) < 1" using u by auto
    then show ?thesis unfolding ae by (rule random_seed_range)
  qed
  have f: "forward_kinematics f' q' = forward_kinematics f q"
    if "take 6 q' = take 6 q \<and> 6 \<le> length q \<and>
        d1 f' = d1 f \<and> shoulder_offset f' = shoulder_offset f \<and> elbow_offset f' = elbow_offset f \<and>
        upper_arm_length f' = upper_arm_length f \<and> forearm_length f' = forearm_length f \<and>
        wrist_1_length f' = wrist_1_length f \<and> wrist_2_length f' = wrist_2_length f"
    using that by (intro forward_kinematics_reads) simp_all
  have g: "draw_seeds stream rng 24 st
          = (map (\<lambda>i. map (\<lambda>j. - pi + (pi - (- pi)) * stream seed (pos + 6 * i + j)) [0..<6]) [0..<24],
             st\<lparr>generators := (generators st)[rng := (seed, pos + 144)]\<rparr>)"
    if "rng < length (generators st) \<and> generators st ! rng = (seed, pos)"
    using that draw_seeds_eq [of rng st seed pos stream 24] random_seeds_eq [of "stream seed" pos 24]
    by simp
  show ?thesis
    apply (intro conjI allI impI ballI)
    subgoal by (rule a)
    subgoal by (rule b)
    subgoal for r1 st1 r2 st2 using c [of r1 st1 r2 st2] by simp
    subgoal for r1 st1 r2 st2 using c [of r1 st1 r2 st2] by simp
    subgoal by (rule d)
    subgoal by (rule e)
    subgoal by (rule l)
    subgoal for s x using r [of s x] by simp
    subgoal for s x using r [of s x] by simp
    subgoal using f by simp
    subgoal using g by simp
    done
qed

theorem seed_battery_fixed_witness:
  "(\<exists>sols.
      solve_ik_in UR3_InverseKinematics (\<lambda>s k. 0)
        [[- 1, 0, 0, 0.4569], [0, 1, 0, 0.11235], [0, 0, - 1, 0.06655], [0, 0, 0, 1]] \<lparr>generators = []\<rparr>
        = (Inr sols, \<lparr>generators = [(42, 144)]\<rparr>) \<and>
      solve_ik_in UR3_InverseKinematics (\<lambda>s k. 0)
        [[- 1, 0, 0, 0.4569], [0, 1, 0, 0.11235], [0, 0, - 1, 0.06655], [0, 0, 0, 1]]
        \<lparr>generators = [(42, 144)]\<rparr>
        = (Inr sols, \<lparr>generators = [(42, 144), (42, 144)]\<rparr>) \<and>
      fst (solve_ik_in UR3_InverseKinematics (\<lambda>s k. if k < 144 then 0 else 1)
        [[- 1, 0, 0, 0.4569], [0, 1, 0, 0.11235], [0, 0, - 1, 0.06655], [0, 0, 0, 1]]
        \<lparr>generators = [(7, 3)]\<rparr>) = Inr sols \<and>
      sols \<noteq> [])
   \<and> - pi \<le> drop 8 (fst (generate_seeds_in (\<lambda>s k. 0) \<lparr>generators = []\<rparr>)) ! 0 ! 0
   \<and> drop 8 (fst (generate_seeds_in (\<lambda>s k. 0) \<lparr>generators = []\<rparr>)) ! 0 ! 0 < pi
   \<and> forward_kinematics (UR3_URDF_ForwardKinematics\<lparr>d6 := 0, joint_limits := []\<rparr>) [0, 0, 0, 0, 0, 0, 5]
       = forward_kinematics UR3_URDF_ForwardKinematics [0, 0, 0, 0, 0, 0]
   \<and> fst (draw_seeds (\<lambda>s k. if k < 144 then 0 else 1 / 2) 0 24 \<lparr>generators = [(42, 144)]\<rparr>) ! 0 ! 0 = 0
   \<and> drop 8 (fst (generate_seeds_in (\<lambda>s k. if k < 144 then 0 else 1 / 2) \<lparr>generators = []\<rparr>)) ! 0 ! 0 = - pi"
proof -
  let ?S = UR3_InverseKinematics
  let ?T = "[[- 1, 0, 0, 0.4569], [0, 1, 0, 0.11235], [0, 0, - 1, 0.06655], [0, 0, 0, 1]] :: mat"
  let ?z = "\<lambda>(s::nat) (k::nat). 0 :: real"
  let ?z' = "\<lambda>(s::nat) (k::nat). if k < 144 then 0 else 1 :: real"
  let ?e = "\<lparr>generators = []\<rparr>"
  let ?e1 = "\<lparr>generators = [(42, 144)]\<rparr>"
  let ?f = UR3_URDF_ForwardKinematics
  let ?f' = "UR3_URDF_ForwardKinematics\<lparr>d6 := 0, joint_limits := []\<rparr>"
  note th = seed_battery_fixed [of ?S ?z ?T ?e "\<lparr>generators = [(7, 3)]\<rparr>" ?z'
      "[0, 0, 0, 0, 0, 0, 5]" "[0, 0, 0, 0, 0, 0]" ?f' ?f]
  note th1 = seed_battery_fixed [of ?S ?z ?T ?e1 ?e ?z "[]" "[]" ?f ?f]
  obtain sols where s: "solve_ik ?S (?z 42) ?T = Inr sols"
    using solve_ik_total [OF is_mat_home, of ?S "?z 42"] by blast
  then have s0: "solve_ik ?S (\<lambda>k. 0) ?T = Inr sols" by simp
  from solve_ik_home_covers [OF s0] have ne: "sols \<noteq> []" by auto
  have r1: "solve_ik_in ?S ?z ?T ?e = (Inr sols, ?e1)"
    using th [THEN conjunct1] s by simp
  have r2: "solve_ik_in ?S ?z ?T ?e1 = (Inr sols, \<lparr>generators = [(42, 144), (42, 144)]\<rparr>)"
    using th1 [THEN conjunct1] s by simp
  have h: "\<forall>k < 144. ?z 42 k = ?z' 42 k" by simp
  have "fst (solve_ik_in ?S ?z' ?T \<lparr>generators = [(7, 3)]\<rparr>) = fst (solve_ik_in ?S ?z ?T ?e)"
    by (rule mp [OF th [THEN conjunct2, THEN conjunct2, THEN conjunct2, THEN conjunct1] h])
  then have r3: "fst (solve_ik_in ?S ?z' ?T \<lparr>generators = [(7, 3)]\<rparr>) = Inr sols"
    by (simp only: r1 fst_conv)
  have a: "\<exists>sols. solve_ik_in ?S ?z ?T ?e = (Inr sols, ?e1) \<and>
      solve_ik_in ?S ?z ?T ?e1 = (Inr sols, \<lparr>generators = [(42, 144), (42, 144)]\<rparr>) \<and>
      fst (solve_ik_in ?S ?z' ?T \<lparr>generators = [(7, 3)]\<rparr>) = Inr sols \<and> sols \<noteq> []"
    using r1 r2 r3 ne by (intro exI [of _ sols] conjI)
  have u: "\<forall>k < 144. 0 \<le> ?z 42 k \<and> ?z 42 k < 1" by simp
  have rg: "\<forall>s \<in> set (drop 8 (fst (generate_seeds_in ?z ?e))). \<forall>a \<in> set s. - pi \<le> a \<and> a < pi"
    by (rule mp [OF th [THEN conjunct2, THEN conjunct2, THEN conjunct2, THEN conjunct2, THEN conjunct2,
          THEN conjunct2, THEN conjunct1] u])
  let ?d = "drop 8 (fst (generate_seeds_in ?z ?e))"
  have l32: "length (fst (generate_seeds_in ?z ?e)) = 32"
    by (rule th [THEN conjunct2, THEN conjunct2, THEN conjunct2, THEN conjunct2, THEN conjunct2, THEN conjunct1])
  then have m0: "?d ! 0 \<in> set ?d" by (intro nth_mem) simp
  have "?d ! 0 = map (\<lambda>j. - pi + (pi - (- pi)) * ?z 42 (6 * 0 + j)) [0..<6]"
    using th [THEN conjunct2, THEN conjunct2, THEN conjunct2, THEN conjunct2, THEN conjunct1]
    by (simp add: configs_def)
  then have "length (?d ! 0) = 6" by simp
  then have m1: "?d ! 0 ! 0 \<in> set (?d ! 0)" by (intro nth_mem) simp
  have b: "- pi \<le> ?d ! 0 ! 0 \<and> ?d ! 0 ! 0 < pi"
    by (rule bspec [OF bspec [OF rg m0] m1])
  have fh: "take 6 [0, 0, 0, 0, 0, 0, 5 :: real] = take 6 [0, 0, 0, 0, 0, 0] \<and> 6 \<le> length [0, 0, 0, 0, 0, 0 :: real] \<and>
        d1 ?f' = d1 ?f \<and> shoulder_offset ?f' = shoulder_offset ?f \<and> elbow_offset ?f' = elbow_offset ?f \<and>
        upper_arm_length ?f' = upper_arm_length ?f \<and> forearm_length ?f' = forearm_length ?f \<and>
        wrist_1_length ?f' = wrist_1_length ?f \<and> wrist_2_length ?f' = wrist_2_length ?f"
    by simp
  have c: "forward_kinematics ?f' [0, 0, 0, 0, 0, 0, 5] = forward_kinematics ?f [0, 0, 0, 0, 0, 0]"
    by (rule mp [OF th [THEN conjunct2, THEN conjunct2, THEN conjunct2, THEN conjunct2, THEN conjunct2,
          THEN conjunct2, THEN conjunct2, THEN conjunct1] fh])
  let ?h = "\<lambda>(s::nat) (k::nat). if k < 144 then 0 else 1 / 2 :: real"
  note th2 = seed_battery_fixed [of ?S ?h ?T ?e1 ?e ?h "[]" "[]" ?f ?f 0 42 144]
  note th3 = seed_battery_fixed [of ?S ?h ?T ?e ?e ?h "[]" "[]" ?f ?f 0 42 144]
  have gh: "0 < length (generators ?e1) \<and> generators ?e1 ! 0 = (42, 144)" by simp
  have "draw_seeds ?h 0 24 ?e1
          = (map (\<lambda>i. map (\<lambda>j. - pi + (pi - (- pi)) * ?h 42 (144 + 6 * i + j)) [0..<6]) [0..<24],
             ?e1\<lparr>generators := (generators ?e1)[0 := (42, 144 + 144)]\<rparr>)"
    by (rule mp [OF th2 [THEN conjunct2, THEN conjunct2, THEN conjunct2, THEN conjunct2, THEN conjunct2,
          THEN conjunct2, THEN conjunct2, THEN conjunct2] gh])
  then have d: "fst (draw_seeds ?h 0 24 ?e1) ! 0 ! 0 = 0" by simp
  have e: "drop 8 (fst (generate_seeds_in ?h ?e)) ! 0 ! 0 = - pi"
    using th3 [THEN conjunct2, THEN conjunct2, THEN conjunct2, THEN conjunct2, THEN conjunct1]
    by (simp add: configs_def)
  show ?thesis
    by (intro conjI) (rule a, rule conjunct1 [OF b], rule conjunct2 [OF b], rule c, rule d, rule e)
qed

section \<open>Independence of the joint limits\<close>

lemma joint_limits_default:
  "joint_limits UR3_URDF_ForwardKinematics = replicate 6 (- 2 * pi, 2 * pi)"
  by (simp add: UR3_URDF_ForwardKinematics_def Let_def numeral_eq_Suc)

lemma forward_kinematics_limits:
  "forward_kinematics (f\<lparr>joint_limits := L\<rparr>) q = forward_kinematics f q"
  by (simp add: forward_kinematics_def)

text \<open>
  C9: \<^verbatim>\<open>check_joint_limits\<close> on at most as many angles as there are limits answers
  whether every angle lies between the two limits of its joint; the limits of the
  constructor are \<open>-2\<pi>\<close> and \<open>2\<pi>\<close> for each of the six joints; and the forward
  kinematics, the pose of the end effector and the solutions of \<^verbatim>\<open>solve_ik\<close> are the
  same whatever the limits are.
\<close>

theorem joint_limits_independent:
  "(length q \<le> length (joint_limits f) \<longrightarrow>
      check_joint_limits f q =
        Inr (\<forall>k < length q. fst (joint_limits f ! k) \<le> q ! k \<and> q ! k \<le> snd (joint_limits f ! k)))
   \<and> joint_limits UR3_URDF_ForwardKinematics = replicate 6 (- 2 * pi, 2 * pi)
   \<and> (length q = 6 \<longrightarrow>
        check_joint_limits UR3_URDF_ForwardKinematics q = Inr (\<forall>k < 6. - 2 * pi \<le> q ! k \<and> q ! k \<le> 2 * pi))
   \<and> forward_kinematics (f\<lparr>joint_limits := L\<rparr>) q = forward_kinematics f q
   \<and> get_end_effector_transform (f\<lparr>joint_limits := L\<rparr>) q = get_end_effector_transform f q
   \<and> solve_ik (self\<lparr>fk := (fk self)\<lparr>joint_limits := L\<rparr>\<rparr>) sample T = solve_ik self sample T"
proof -
  have a: "check_joint_limits f q =
        Inr (\<forall>k < length q. fst (joint_limits f ! k) \<le> q ! k \<and> q ! k \<le> snd (joint_limits f ! k))"
    if "length q \<le> length (joint_limits f)"
    using check_joint_limits_from_eq [of 0 q "joint_limits f"] that
    by (simp add: check_joint_limits_def)
  have b: "check_joint_limits UR3_URDF_ForwardKinematics q = Inr (\<forall>k < 6. - 2 * pi \<le> q ! k \<and> q ! k \<le> 2 * pi)"
    if q: "length q = 6"
  proof -
    have "check_joint_limits UR3_URDF_ForwardKinematics q =
        Inr (\<forall>k < length q. fst (replicate 6 (- 2 * pi, 2 * pi) ! k) \<le> q ! k \<and>
                              q ! k \<le> snd (replicate 6 (- 2 * pi, 2 * pi) ! k))"
      using check_joint_limits_from_eq [of 0 q "joint_limits UR3_URDF_ForwardKinematics"] q
      by (simp add: check_joint_limits_def joint_limits_default)
    then show ?thesis using q by simp
  qed
  show ?thesis
    using a b joint_limits_default forward_kinematics_limits get_end_effector_transform_limits
      solve_ik_limits
    by blast
qed

theorem joint_limits_independent_witness:
  "length [0, 0, 0, 0, 0, 9 :: real] \<le> length (joint_limits UR3_URDF_ForwardKinematics) \<and>
   length [0, 0, 0, 0, 0, 9 :: real] = 6 \<and>
   check_joint_limits UR3_URDF_ForwardKinematics [0, 0, 0, 0, 0, 9]
     = Inr (\<forall>k < 6. - 2 * pi \<le> [0, 0, 0, 0, 0, 9] ! k \<and> [0, 0, 0, 0, 0, 9] ! k \<le> 2 * pi) \<and>
   check_joint_limits UR3_URDF_ForwardKinematics [0, 0, 0, 0, 0, 9] = Inr False"
proof -
  have l: "length [0, 0, 0, 0, 0, 9 :: real] \<le> length (joint_limits UR3_URDF_ForwardKinematics)"
    by (simp add: joint_limits_default)
  have s: "length [0, 0, 0, 0, 0, 9 :: real] = 6" by simp
  have c: "check_joint_limits UR3_URDF_ForwardKinematics [0, 0, 0, 0, 0, 9]
     = Inr (\<forall>k < 6. - 2 * pi \<le> [0, 0, 0, 0, 0, 9] ! k \<and> [0, 0, 0, 0, 0, 9] ! k \<le> 2 * pi)"
    using joint_limits_independent [of "[0, 0, 0, 0, 0, 9]" UR3_URDF_ForwardKinematics] s by blast
  have "\<not> (9 :: real) \<le> 2 * pi"
    using pi_less_4 by linarith
  then have "\<not> (\<forall>k < 6. - 2 * pi \<le> [0, 0, 0, 0, 0, 9 :: real] ! k \<and> [0, 0, 0, 0, 0, 9] ! k \<le> 2 * pi)"
    by (auto intro: exI [of _ 5])
  then have "check_joint_limits UR3_URDF_ForwardKinematics [0, 0, 0, 0, 0, 9] = Inr False"
    using c by simp
  then show ?thesis using l s c by blast
qed

end
